theory Spec2Isabelle
  imports Complex_Main
begin

section \<open>JavaScript values\<close>

text \<open>
  Configuration fragments are untyped JavaScript values (\<^verbatim>\<open>configs: any[]\<close>).
  An object is the list of its own enumerable string-keyed properties in insertion
  order, together with a flag telling whether it carries the module-private symbol
  property \<^verbatim>\<open>kDefineConfigWasUsed\<close> (the only symbol this program ever sets, always
  to \<^verbatim>\<open>true\<close>). A property list is read like an object literal: when a key is
  written twice the last value counts. Arrays carry no symbol slot in this model.
  \<open>JInstance\<close> stands for a host object without own enumerable properties, named by
  its class (\<^verbatim>\<open>RegExp\<close>, \<^verbatim>\<open>Buffer\<close>).
  Numbers are reals: NaN, the infinities and the negative zero are outside the model.
  JavaScript enumerates array-index keys of an object before its other keys; the model
  keeps insertion order throughout, which is what JavaScript does for every other key.
\<close>

datatype jsval =
    JUndefined
  | JNull
  | JBool bool
  | JNum real
  | JStr string
  | JArr "jsval list"
  | JObj "(string \<times> jsval) list" bool
  | JInstance string

type_synonym props = "(string \<times> jsval) list"

datatype part = Text string | Json jsval

datatype error =
    TypeError
  | ErrorWithFile string "part list"
  | Error string
  | Rethrown
  | Unmodelled

text \<open>
  \<open>ErrorWithFile file parts\<close> is \<^verbatim>\<open>errorWithFile(file, message)\<close>; the message is
  kept as the pieces of its template string, \<open>Json v\<close> standing for
  \<^verbatim>\<open>JSON.stringify(v)\<close>. \<open>Rethrown\<close> is an error of the schema library thrown on
  unchanged. \<open>Unmodelled\<close> marks the one place where the value model cannot follow
  the program (the sentinel set on an array or a host object).
\<close>

fun truthy :: "jsval \<Rightarrow> bool" where
  "truthy JUndefined = False"
| "truthy JNull = False"
| "truthy (JBool b) = b"
| "truthy (JNum n) = (n \<noteq> 0)"
| "truthy (JStr s) = (s \<noteq> [])"
| "truthy (JArr xs) = True"
| "truthy (JObj ps m) = True"
| "truthy (JInstance c) = True"

fun nullish :: "jsval \<Rightarrow> bool" where
  "nullish JUndefined = True"
| "nullish JNull = True"
| "nullish v = False"

text \<open>
  The primitive values: \<^verbatim>\<open>undefined\<close>, \<^verbatim>\<open>null\<close>, booleans, numbers and strings.
  On them equality of values is JavaScript's \<^verbatim>\<open>SameValueZero\<close>; arrays, objects and
  host objects are compared there by reference, which a value does not record.
\<close>

fun primitive :: "jsval \<Rightarrow> bool" where
  "primitive (JArr xs) = False"
| "primitive (JObj ps m) = False"
| "primitive (JInstance c) = False"
| "primitive v = True"

text \<open>\<^verbatim>\<open>typeof v === 'object'\<close>: true of null, arrays, objects and host objects.\<close>

fun typeof_object :: "jsval \<Rightarrow> bool" where
  "typeof_object JNull = True"
| "typeof_object (JArr xs) = True"
| "typeof_object (JObj ps m) = True"
| "typeof_object (JInstance c) = True"
| "typeof_object v = False"

subsection \<open>Decimal numerals of indices\<close>

definition digit :: "nat \<Rightarrow> char" where
  "digit n = ''0123456789'' ! (n mod 10)"

function dec :: "nat \<Rightarrow> string" where
  "dec n = (if n < 10 then [digit n] else dec (n div 10) @ [digit n])"
  by pat_completeness auto
termination
  by (relation "measure (\<lambda>n. n)") auto

declare dec.simps [simp del]

subsection \<open>Properties\<close>

definition lookup :: "props \<Rightarrow> string \<Rightarrow> jsval" where
  "lookup ps k = (case map_of (rev ps) k of Some v \<Rightarrow> v | None \<Rightarrow> JUndefined)"

definition has_key :: "props \<Rightarrow> string \<Rightarrow> bool" where
  "has_key ps k = (k \<in> set (map fst ps))"

text \<open>
  Assignment to a property: an existing key keeps its place and takes the new value,
  a new key goes to the end.
\<close>

definition set_prop :: "string \<Rightarrow> jsval \<Rightarrow> props \<Rightarrow> props" where
  "set_prop k v ps =
     (if has_key ps k then map (\<lambda>(k', v'). if k' = k then (k', v) else (k', v')) ps
      else ps @ [(k, v)])"

text \<open>
  The own enumerable string-keyed properties a spread \<^verbatim>\<open>...v\<close> copies: those of an
  object, the indexed elements of an array, the indexed characters of a string, and
  nothing for any other value (spreading \<^verbatim>\<open>undefined\<close> or \<^verbatim>\<open>null\<close> is allowed).
\<close>

fun own_props :: "jsval \<Rightarrow> props" where
  "own_props (JObj ps m) = ps"
| "own_props (JArr xs) = zip (map dec [0..<length xs]) xs"
| "own_props (JStr s) = zip (map dec [0..<length s]) (map (\<lambda>c. JStr [c]) s)"
| "own_props v = []"

fun has_mark :: "jsval \<Rightarrow> bool" where
  "has_mark (JObj ps m) = m"
| "has_mark v = False"

definition spread_into :: "props \<Rightarrow> props \<Rightarrow> props" where
  "spread_into src acc = fold (\<lambda>(k, v) a. set_prop k v a) src acc"

text \<open>The object literal \<^verbatim>\<open>{ ...x, ...y }\<close>.\<close>

definition spread2 :: "jsval \<Rightarrow> jsval \<Rightarrow> jsval" where
  "spread2 x y =
     JObj (spread_into (own_props y) (spread_into (own_props x) [])) (has_mark x \<or> has_mark y)"

text \<open>
  Reading \<^verbatim>\<open>v[k]\<close> of a value that is neither \<^verbatim>\<open>undefined\<close> nor \<^verbatim>\<open>null\<close>
  (on those JavaScript throws; the callers below test \<open>nullish\<close> first). Members
  inherited from a prototype are functions and are not part of the model.
\<close>

fun getv :: "jsval \<Rightarrow> string \<Rightarrow> jsval" where
  "getv (JObj ps m) k = lookup ps k"
| "getv (JArr xs) k =
     (if k = ''length'' then JNum (real (length xs))
      else case find (\<lambda>i. dec i = k) [0..<length xs] of
             Some i \<Rightarrow> xs ! i | None \<Rightarrow> JUndefined)"
| "getv (JStr s) k =
     (if k = ''length'' then JNum (real (length s))
      else case find (\<lambda>i. dec i = k) [0..<length s] of
             Some i \<Rightarrow> JStr [s ! i] | None \<Rightarrow> JUndefined)"
| "getv v k = JUndefined"

definition get_prop :: "jsval \<Rightarrow> string \<Rightarrow> error + jsval" where
  "get_prop v k = (if nullish v then Inl TypeError else Inr (getv v k))"

text \<open>\<^verbatim>\<open>k in v\<close> for an object operand; own keys only.\<close>

fun key_in :: "string \<Rightarrow> jsval \<Rightarrow> bool" where
  "key_in k (JObj ps m) = has_key ps k"
| "key_in k (JArr xs) = (k = ''length'' \<or> find (\<lambda>i. dec i = k) [0..<length xs] \<noteq> None)"
| "key_in k v = False"

section \<open>The config merger: \<^verbatim>\<open>defineConfig\<close>\<close>

text \<open>
  \<^verbatim>\<open>Array.isArray(w) ? w : (w ? [w] : [])\<close>, the normalisation of a
  \<^verbatim>\<open>webServer\<close> value to a sequence.
\<close>

fun webServerSeq :: "jsval \<Rightarrow> jsval list" where
  "webServerSeq (JArr xs) = xs"
| "webServerSeq w = (if truthy w then [w] else [])"

text \<open>
  \<^verbatim>\<open>for (const x of v)\<close>: the elements of an array, the characters of a string,
  a TypeError for anything else.
\<close>

fun iterate :: "jsval \<Rightarrow> error + jsval list" where
  "iterate (JArr xs) = Inr xs"
| "iterate (JStr s) = Inr (map (\<lambda>c. JStr [c]) s)"
| "iterate v = Inl TypeError"

text \<open>\<^verbatim>\<open>v || []\<close>\<close>

definition or_empty :: "jsval \<Rightarrow> jsval" where
  "or_empty v = (if truthy v then v else JArr [])"

text \<open>
  The \<^verbatim>\<open>Map\<close> of project overrides, keyed by project name: an association list in
  insertion order. \<^verbatim>\<open>set\<close> on a key already present keeps its position. Keys are
  compared as values, which is \<^verbatim>\<open>SameValueZero\<close> on \<open>primitive\<close> keys only: a
  \<^verbatim>\<open>Map\<close> tells apart two arrays or objects that are equal as values but are not
  the same reference. The three operations are therefore the \<^verbatim>\<open>Map\<close>'s on primitive
  keys, and every property of the matching of projects below is stated for project
  names that are primitive (a project's name is a string, or absent).
\<close>

type_synonym jsmap = "(jsval \<times> jsval) list"

definition map_set :: "jsval \<Rightarrow> jsval \<Rightarrow> jsmap \<Rightarrow> jsmap" where
  "map_set k v m =
     (if k \<in> set (map fst m) then map (\<lambda>(k', v'). if k' = k then (k', v) else (k', v')) m
      else m @ [(k, v)])"

definition map_get :: "jsmap \<Rightarrow> jsval \<Rightarrow> jsval" where
  "map_get m k = (case map_of m k of Some v \<Rightarrow> v | None \<Rightarrow> JUndefined)"

definition map_delete :: "jsval \<Rightarrow> jsmap \<Rightarrow> jsmap" where
  "map_delete k m = filter (\<lambda>(k', v'). k' \<noteq> k) m"

text \<open>Lines 66-67: \<^verbatim>\<open>projectOverrides.set(project.name, project)\<close> for each project.\<close>

fun collectOverrides :: "jsval list \<Rightarrow> jsmap \<Rightarrow> error + jsmap" where
  "collectOverrides [] m = Inr m"
| "collectOverrides (p # ps) m =
     (if nullish p then Inl TypeError
      else collectOverrides ps (map_set (getv p ''name'') p m))"

text \<open>
  Lines 73-80: \<^verbatim>\<open>{ ...project, ...projectOverride, use: { ...project.use,
  ...projectOverride.use } }\<close>.
\<close>

definition mergeProject :: "jsval \<Rightarrow> jsval \<Rightarrow> jsval" where
  "mergeProject project projectOverride =
     JObj (set_prop ''use'' (spread2 (getv project ''use'') (getv projectOverride ''use''))
            (spread_into (own_props projectOverride) (spread_into (own_props project) [])))
          (has_mark project \<or> has_mark projectOverride)"

text \<open>Lines 70-85: the loop over the previous projects, threading the map.\<close>

fun overrideLoop :: "jsval list \<Rightarrow> jsmap \<Rightarrow> jsval list \<Rightarrow> error + (jsval list \<times> jsmap)" where
  "overrideLoop [] m projects = Inr (projects, m)"
| "overrideLoop (p # ps) m projects =
     (if nullish p then Inl TypeError
      else let projectOverride = map_get m (getv p ''name'') in
        if truthy projectOverride
        then overrideLoop ps (map_delete (getv p ''name'') m)
               (projects @ [mergeProject p projectOverride])
        else overrideLoop ps m (projects @ [p]))"

text \<open>Lines 41-60: the object literal of one fold step.\<close>

definition mergedObject :: "jsval \<Rightarrow> jsval \<Rightarrow> jsval" where
  "mergedObject result config =
     JObj
       (set_prop ''webServer''
          (JArr (webServerSeq (getv result ''webServer'') @ webServerSeq (getv config ''webServer'')))
       (set_prop ''build'' (spread2 (getv result ''build'') (getv config ''build''))
       (set_prop ''use'' (spread2 (getv result ''use'') (getv config ''use''))
       (set_prop ''expect'' (spread2 (getv result ''expect'') (getv config ''expect''))
       (spread_into (own_props config) (spread_into (own_props result) []))))))
       (has_mark result \<or> has_mark config)"

text \<open>\<^verbatim>\<open>result.projects = projects\<close> on the object just built.\<close>

fun assign_projects :: "jsval \<Rightarrow> jsval list \<Rightarrow> jsval" where
  "assign_projects (JObj ps m) projects = JObj (set_prop ''projects'' (JArr projects) ps) m"
| "assign_projects v projects = v"

text \<open>One iteration of the loop of lines 38-88.\<close>

definition mergeStep :: "jsval \<Rightarrow> jsval \<Rightarrow> error + jsval" where
  "mergeStep result config =
     (if nullish result \<or> nullish config then Inl TypeError
      else
        let prevProjects = getv result ''projects'';
            result' = mergedObject result config
        in if \<not> truthy (getv result' ''projects'') \<and> \<not> truthy (getv config ''projects'')
           then Inr result'
           else
             case iterate (or_empty (getv config ''projects'')) of
               Inl e \<Rightarrow> Inl e
             | Inr cps \<Rightarrow>
                (case collectOverrides cps [] of
                   Inl e \<Rightarrow> Inl e
                 | Inr projectOverrides \<Rightarrow>
                    (case iterate (or_empty prevProjects) of
                       Inl e \<Rightarrow> Inl e
                     | Inr pps \<Rightarrow>
                        (case overrideLoop pps projectOverrides [] of
                           Inl e \<Rightarrow> Inl e
                         | Inr (projects, rest) \<Rightarrow>
                             Inr (assign_projects result' (projects @ map snd rest))))))"

fun mergeLoop :: "jsval \<Rightarrow> jsval list \<Rightarrow> error + jsval" where
  "mergeLoop result [] = Inr result"
| "mergeLoop result (config # configs) =
     (case mergeStep result config of
        Inl e \<Rightarrow> Inl e
      | Inr result' \<Rightarrow> mergeLoop result' configs)"

text \<open>
  Line 89, \<^verbatim>\<open>result[kDefineConfigWasUsed] = true\<close>, in a module (strict mode): a
  TypeError on \<^verbatim>\<open>undefined\<close>, \<^verbatim>\<open>null\<close> and on a primitive value.
\<close>

fun markUsed :: "jsval \<Rightarrow> error + jsval" where
  "markUsed (JObj ps m) = Inr (JObj ps True)"
| "markUsed (JArr xs) = Inl Unmodelled"
| "markUsed (JInstance c) = Inl Unmodelled"
| "markUsed v = Inl TypeError"

definition defineConfig :: "jsval list \<Rightarrow> error + jsval" where
  "defineConfig configs =
     (case mergeLoop (case configs of [] \<Rightarrow> JUndefined | c # cs \<Rightarrow> c) (tl configs) of
        Inl e \<Rightarrow> Inl e
      | Inr result \<Rightarrow> markUsed result)"

section \<open>The schema validator: \<^verbatim>\<open>validateConfig\<close>\<close>

text \<open>
  What the schema library reports: a \<^verbatim>\<open>ZodError\<close> carries a list of issues, each with
  a code, the path of keys and indices leading to the offending value, and a message.
  \<^verbatim>\<open>schema.parse(v)\<close> either returns (its value is discarded by the callers) or
  throws such an error.
\<close>

datatype issue_code = invalid_type | invalid_value | too_small | too_big | other_code string

datatype pathkey = PKey string | PIdx nat

record issue =
  code :: issue_code
  path :: "pathkey list"
  message :: string

datatype parse_result = ParseOk | ZodError "issue list"

definition dquote :: string where
  "dquote = [CHR 0x22]"

definition newline :: string where
  "newline = [CHR 0x0A]"

fun key_str :: "pathkey \<Rightarrow> string" where
  "key_str (PKey s) = s"
| "key_str (PIdx i) = dec i"

text \<open>\<^verbatim>\<open>xs.join('.')\<close>\<close>

fun join_dot :: "string list \<Rightarrow> string" where
  "join_dot [] = []"
| "join_dot [x] = x"
| "join_dot (x # y # ys) = x @ ''.'' @ join_dot (y # ys)"

text \<open>\<^verbatim>\<open>s.replace(pat, rep)\<close> with a string pattern: the first occurrence only.\<close>

fun replace_first :: "string \<Rightarrow> string \<Rightarrow> string \<Rightarrow> string" where
  "replace_first pat rep [] = (if pat = [] then rep else [])"
| "replace_first pat rep (c # cs) =
     (if take (length pat) (c # cs) = pat then rep @ drop (length pat) (c # cs)
      else c # replace_first pat rep cs)"

text \<open>\<^verbatim>\<open>current[key]\<close> for a key of an issue path.\<close>

fun index_val :: "jsval \<Rightarrow> pathkey \<Rightarrow> jsval" where
  "index_val v (PKey s) = getv v s"
| "index_val (JArr xs) (PIdx i) = (if i < length xs then xs ! i else JUndefined)"
| "index_val (JStr s) (PIdx i) = (if i < length s then JStr [s ! i] else JUndefined)"
| "index_val v (PIdx i) = getv v (dec i)"

text \<open>
  Lines 159-161 and 256-258: \<^verbatim>\<open>for (const key of issue.path) current = current[key]\<close>;
  reading a property of \<^verbatim>\<open>undefined\<close> or \<^verbatim>\<open>null\<close> throws.
\<close>

fun walk :: "jsval \<Rightarrow> pathkey list \<Rightarrow> error + jsval" where
  "walk current [] = Inr current"
| "walk current (key # keys) =
     (if nullish current then Inl TypeError else walk (index_val current key) keys)"

definition option_message :: "string \<Rightarrow> string \<Rightarrow> string" where
  "option_message p msg = ''Configuration option '' @ dquote @ p @ dquote @ '' '' @ msg"

definition received_error :: "string \<Rightarrow> string \<Rightarrow> string \<Rightarrow> jsval \<Rightarrow> error" where
  "received_error file p msg receivedValue =
     ErrorWithFile file [Text (option_message p msg @ newline @ ''Received: ''), Json receivedValue]"

text \<open>
  Lines 248-288, the handling of the first issue in \<^verbatim>\<open>validateTestOptions\<close>. The result
  is the error thrown.
\<close>

definition reportOptionsIssue :: "string \<Rightarrow> jsval \<Rightarrow> string \<Rightarrow> issue \<Rightarrow> error" where
  "reportOptionsIssue file use title iss =
     (let p = join_dot (map key_str (path iss));
          fullPath = (if p \<noteq> [] then title @ ''.'' @ p else title)
      in if code iss = invalid_type then
           (case (if path iss \<noteq> [] then walk use (path iss) else Inr JUndefined) of
              Inl e \<Rightarrow> e
            | Inr receivedValue \<Rightarrow>
                received_error file fullPath
                  (replace_first ''Invalid input: '' [] (message iss)) receivedValue)
         else if code iss = invalid_value then
           (case (if path iss \<noteq> [] then get_prop use p else Inr JUndefined) of
              Inl e \<Rightarrow> e
            | Inr receivedValue \<Rightarrow> received_error file fullPath (message iss) receivedValue)
         else if code iss = too_small \<or> code iss = too_big then
           (case (if path iss \<noteq> [] then get_prop use p else Inr JUndefined) of
              Inl e \<Rightarrow> e
            | Inr receivedValue \<Rightarrow> received_error file fullPath (message iss) receivedValue)
         else ErrorWithFile file [Text (option_message fullPath (message iss))])"

text \<open>Lines 243-291; \<open>parse\<close> is \<^verbatim>\<open>testOptionsSchema.parse\<close>.\<close>

definition validateTestOptions ::
  "(jsval \<Rightarrow> parse_result) \<Rightarrow> string \<Rightarrow> jsval \<Rightarrow> string \<Rightarrow> error + unit" where
  "validateTestOptions parse file use title =
     (case parse use of
        ParseOk \<Rightarrow> Inr ()
      | ZodError [] \<Rightarrow> Inl Rethrown
      | ZodError (iss # rest) \<Rightarrow> Inl (reportOptionsIssue file use title iss))"

text \<open>\<^verbatim>\<open>typeof v === 'string'\<close> and \<^verbatim>\<open>isRegExp(v)\<close>\<close>

fun is_string :: "jsval \<Rightarrow> bool" where
  "is_string (JStr s) = True"
| "is_string v = False"

definition isRegExp :: "jsval \<Rightarrow> bool" where
  "isRegExp v = (v = JInstance ''RegExp'')"

text \<open>Lines 225-228: the first array element, by index, that is no string and no RegExp.\<close>

fun checkItems :: "string \<Rightarrow> string \<Rightarrow> jsval list \<Rightarrow> nat \<Rightarrow> error + unit" where
  "checkItems file label [] index = Inr ()"
| "checkItems file label (item # items) index =
     (if \<not> is_string item \<and> \<not> isRegExp item
      then Inl (ErrorWithFile file
                 [Text (label @ ''['' @ dec index @ ''] must be a string or a RegExp'')])
      else checkItems file label items (Suc index))"

text \<open>Lines 221-233, for one of \<^verbatim>\<open>testIgnore\<close> and \<^verbatim>\<open>testMatch\<close>.\<close>

definition checkPatternProp :: "string \<Rightarrow> jsval \<Rightarrow> string \<Rightarrow> string \<Rightarrow> error + unit" where
  "checkPatternProp file project title p =
     (if key_in p project \<and> getv project p \<noteq> JUndefined then
        (case getv project p of
           JArr items \<Rightarrow> checkItems file (title @ ''.'' @ p) items 0
         | v \<Rightarrow> if \<not> is_string v \<and> \<not> isRegExp v
                then Inl (ErrorWithFile file
                           [Text (title @ ''.'' @ p @ '' must be a string or a RegExp'')])
                else Inr ())
      else Inr ())"

text \<open>Lines 216-241.\<close>

definition validateProject ::
  "(jsval \<Rightarrow> parse_result) \<Rightarrow> string \<Rightarrow> jsval \<Rightarrow> string \<Rightarrow> error + unit" where
  "validateProject parse file project title =
     (if \<not> typeof_object project \<or> \<not> truthy project
      then Inl (ErrorWithFile file [Text (title @ '' must be an object'')])
      else case checkPatternProp file project title ''testIgnore'' of
        Inl e \<Rightarrow> Inl e
      | Inr u \<Rightarrow>
         (case checkPatternProp file project title ''testMatch'' of
            Inl e \<Rightarrow> Inl e
          | Inr u \<Rightarrow>
             if key_in ''use'' project \<and> getv project ''use'' \<noteq> JUndefined then
               (if \<not> truthy (getv project ''use'') \<or> \<not> typeof_object (getv project ''use'')
                then Inl (ErrorWithFile file [Text (title @ ''.use must be an object'')])
                else validateTestOptions parse file (getv project ''use'') (title @ ''.use''))
             else Inr ()))"

text \<open>
  Lines 152-192, the handling of the first issue of the top-level schema. The received
  value of a wrong-type issue is found by walking the path; that of the other two
  kinds by reading \<^verbatim>\<open>config[path]\<close> with the joined path.
\<close>

definition reportConfigIssue :: "string \<Rightarrow> jsval \<Rightarrow> issue \<Rightarrow> error" where
  "reportConfigIssue file config iss =
     (let p = join_dot (map key_str (path iss))
      in if code iss = invalid_type then
           (case (if path iss \<noteq> [] then walk config (path iss) else Inr JUndefined) of
              Inl e \<Rightarrow> e
            | Inr receivedValue \<Rightarrow>
                received_error file p (replace_first ''Invalid input: '' [] (message iss)) receivedValue)
         else if code iss = invalid_value then
           (case (if path iss \<noteq> [] then get_prop config p else Inr JUndefined) of
              Inl e \<Rightarrow> e
            | Inr receivedValue \<Rightarrow> received_error file p (message iss) receivedValue)
         else if code iss = too_small \<or> code iss = too_big then
           (case (if path iss \<noteq> [] then get_prop config p else Inr JUndefined) of
              Inl e \<Rightarrow> e
            | Inr receivedValue \<Rightarrow> received_error file p (message iss) receivedValue)
         else ErrorWithFile file
                [Text (option_message (if p \<noteq> [] then p else ''configuration'') (message iss))])"

text \<open>
  The collaborators of the validator: the two schemas' \<^verbatim>\<open>parse\<close> and the file system
  test \<^verbatim>\<open>fs.existsSync(path.resolve(file, '..', tsconfig))\<close>.
\<close>

record validator_env =
  testConfigSchema_parse :: "jsval \<Rightarrow> parse_result"
  testOptionsSchema_parse :: "jsval \<Rightarrow> parse_result"
  tsconfigExists :: "string \<Rightarrow> string \<Rightarrow> bool"

text \<open>Lines 148-194: the top-level schema check.\<close>

definition schemaCheck :: "validator_env \<Rightarrow> string \<Rightarrow> jsval \<Rightarrow> error + unit" where
  "schemaCheck env file config =
     (case testConfigSchema_parse env config of
        ParseOk \<Rightarrow> Inr ()
      | ZodError [] \<Rightarrow> Inl Rethrown
      | ZodError (iss # rest) \<Rightarrow> Inl (reportConfigIssue file config iss))"

text \<open>Lines 204-206: \<^verbatim>\<open>config.projects.forEach\<close>, by index.\<close>

fun validateProjects ::
  "(jsval \<Rightarrow> parse_result) \<Rightarrow> string \<Rightarrow> jsval list \<Rightarrow> nat \<Rightarrow> error + unit" where
  "validateProjects parse file [] index = Inr ()"
| "validateProjects parse file (project # projects) index =
     (case validateProject parse file project (''config.projects['' @ dec index @ '']'') of
        Inl e \<Rightarrow> Inl e
      | Inr u \<Rightarrow> validateProjects parse file projects (Suc index))"

definition projectsCheck :: "validator_env \<Rightarrow> string \<Rightarrow> jsval \<Rightarrow> error + unit" where
  "projectsCheck env file config =
     (if truthy (getv config ''projects'') then
        (case getv config ''projects'' of
           JArr projects \<Rightarrow> validateProjects (testOptionsSchema_parse env) file projects 0
         | v \<Rightarrow> Inl TypeError)
      else Inr ())"

text \<open>Lines 210-213.\<close>

definition tsconfigCheck :: "validator_env \<Rightarrow> string \<Rightarrow> jsval \<Rightarrow> error + unit" where
  "tsconfigCheck env file config =
     (case getv config ''tsconfig'' of
        JStr s \<Rightarrow> if s \<noteq> [] \<and> \<not> tsconfigExists env file s
                  then Inl (ErrorWithFile file [Text ''config.tsconfig does not exist''])
                  else Inr ()
      | v \<Rightarrow> Inr ())"

text \<open>Lines 144-214.\<close>

definition validateConfig :: "validator_env \<Rightarrow> string \<Rightarrow> jsval \<Rightarrow> error + unit" where
  "validateConfig env file config =
     (if \<not> typeof_object config \<or> \<not> truthy config
      then Inl (ErrorWithFile file [Text ''Configuration file must export a single object''])
      else case schemaCheck env file config of
        Inl e \<Rightarrow> Inl e
      | Inr u \<Rightarrow>
         (case validateProject (testOptionsSchema_parse env) file config ''config'' of
            Inl e \<Rightarrow> Inl e
          | Inr u \<Rightarrow>
             (case (if getv config ''use'' \<noteq> JUndefined
                    then validateTestOptions (testOptionsSchema_parse env) file
                           (getv config ''use'') ''config.use''
                    else Inr ()) of
                Inl e \<Rightarrow> Inl e
              | Inr u \<Rightarrow>
                 (case projectsCheck env file config of
                    Inl e \<Rightarrow> Inl e
                  | Inr u \<Rightarrow> tsconfigCheck env file config))))"

section \<open>Loading: \<^verbatim>\<open>loadUserConfig\<close> and \<^verbatim>\<open>loadConfig\<close>\<close>

record config_location =
  resolvedConfigFile :: "string option"
  configDir :: string

text \<open>\<^verbatim>\<open>s ? a : b\<close> and \<^verbatim>\<open>s || d\<close> on a string that may be \<^verbatim>\<open>undefined\<close>.\<close>

fun truthy_file :: "string option \<Rightarrow> bool" where
  "truthy_file None = False"
| "truthy_file (Some f) = (f \<noteq> [])"

fun file_or :: "string option \<Rightarrow> string \<Rightarrow> string" where
  "file_or None d = d"
| "file_or (Some f) d = (if f \<noteq> [] then f else d)"

text \<open>
  The collaborators of the loader: the module loader \<^verbatim>\<open>requireOrImport\<close>, the outcome
  of \<^verbatim>\<open>registerESMLoader()\<close>, \<^verbatim>\<open>fileIsModule\<close>, and the constructor of
  \<^verbatim>\<open>FullConfigInternal\<close>, whose result is left abstract. The set-up of the transform
  and of the ESM loader acts on state outside this model.
\<close>

record 'c loader_env =
  requireOrImport :: "string \<Rightarrow> error + jsval"
  registerESMLoader :: bool
  fileIsModule :: "string \<Rightarrow> bool"
  newFullConfigInternal :: "config_location \<Rightarrow> jsval \<Rightarrow> error + 'c"

record 'c full_config =
  internal :: 'c
  defineConfigWasUsed :: bool

text \<open>Lines 99-104.\<close>

definition loadUserConfig :: "'c loader_env \<Rightarrow> config_location \<Rightarrow> error + jsval" where
  "loadUserConfig lenv location =
     (case (case resolvedConfigFile location of
              Some f \<Rightarrow> if f \<noteq> [] then requireOrImport lenv f else Inr (JObj [] False)
            | None \<Rightarrow> Inr (JObj [] False)) of
        Inl e \<Rightarrow> Inl e
      | Inr object \<Rightarrow>
          if truthy object \<and> typeof_object object \<and> key_in ''default'' object
          then Inr (getv object ''default'')
          else Inr object)"

text \<open>
  Lines 106-142, as far as the returned configuration and its flag go:
  \<^verbatim>\<open>fullConfig.defineConfigWasUsed = !!userConfig[kDefineConfigWasUsed]\<close>.
\<close>

definition loadConfig ::
  "validator_env \<Rightarrow> 'c loader_env \<Rightarrow> config_location \<Rightarrow> error + 'c full_config" where
  "loadConfig env lenv location =
     (if \<not> registerESMLoader lenv \<and> truthy_file (resolvedConfigFile location)
         \<and> fileIsModule lenv (file_or (resolvedConfigFile location) [])
      then Inl (ErrorWithFile (file_or (resolvedConfigFile location) [])
                 [Text ''Playwright requires Node.js 18.19 or higher to load esm modules. Please update your version of Node.js.''])
      else case loadUserConfig lenv location of
        Inl e \<Rightarrow> Inl e
      | Inr userConfig \<Rightarrow>
         (case validateConfig env (file_or (resolvedConfigFile location) ''<default config>'')
                 userConfig of
            Inl e \<Rightarrow> Inl e
          | Inr u \<Rightarrow>
             (case newFullConfigInternal lenv location userConfig of
                Inl e \<Rightarrow> Inl e
              | Inr fc \<Rightarrow>
                  Inr \<lparr>internal = fc, defineConfigWasUsed = has_mark userConfig\<rparr>)))"

section \<open>The location resolver: \<^verbatim>\<open>resolveConfigLocation\<close>\<close>

text \<open>
  The file system and the path functions the resolver calls: \<^verbatim>\<open>fs.existsSync\<close>,
  \<^verbatim>\<open>fs.statSync(p).isDirectory()\<close>, \<^verbatim>\<open>path.resolve\<close> of two segments,
  \<^verbatim>\<open>path.dirname\<close> and \<^verbatim>\<open>process.cwd()\<close>.
\<close>

record fs_env =
  existsSync :: "string \<Rightarrow> bool"
  isDirectory :: "string \<Rightarrow> bool"
  path_resolve :: "string \<Rightarrow> string \<Rightarrow> string"
  path_dirname :: "string \<Rightarrow> string"
  cwd :: string

definition config_extensions :: "string list" where
  "config_extensions = [''.ts'', ''.js'', ''.mts'', ''.mjs'', ''.cts'', ''.cjs'']"

text \<open>Lines 303-306.\<close>

definition resolveConfig :: "fs_env \<Rightarrow> string \<Rightarrow> string option" where
  "resolveConfig fs configFile = (if existsSync fs configFile then Some configFile else None)"

text \<open>Lines 308-314, the loop over the extensions still to try.\<close>

fun resolveConfigFileFromDirectory :: "fs_env \<Rightarrow> string \<Rightarrow> string list \<Rightarrow> string option" where
  "resolveConfigFileFromDirectory fs directory [] = None"
| "resolveConfigFileFromDirectory fs directory (ext # exts) =
     (let configFile = resolveConfig fs (path_resolve fs directory (''playwright.config'' @ ext))
      in if truthy_file configFile then configFile
         else resolveConfigFileFromDirectory fs directory exts)"

text \<open>Lines 302-328.\<close>

definition resolveConfigFile :: "fs_env \<Rightarrow> string \<Rightarrow> error + string option" where
  "resolveConfigFile fs configFileOrDirectory =
     (if \<not> existsSync fs configFileOrDirectory
      then Inl (Error (configFileOrDirectory @ '' does not exist''))
      else if isDirectory fs configFileOrDirectory then
        (let configFile = resolveConfigFileFromDirectory fs configFileOrDirectory config_extensions
         in if truthy_file configFile then Inr configFile else Inr None)
      else Inr (Some configFileOrDirectory))"

text \<open>
  Line 294: \<^verbatim>\<open>configFile ? path.resolve(process.cwd(), configFile) : process.cwd()\<close>,
  the path the resolver looks at.
\<close>

definition target_of :: "fs_env \<Rightarrow> string option \<Rightarrow> string" where
  "target_of fs configFile =
     (case configFile of
        None \<Rightarrow> cwd fs
      | Some f \<Rightarrow> if f \<noteq> [] then path_resolve fs (cwd fs) f else cwd fs)"

text \<open>Lines 293-300.\<close>

definition resolveConfigLocation :: "fs_env \<Rightarrow> string option \<Rightarrow> error + config_location" where
  "resolveConfigLocation fs configFile =
     (let configFileOrDirectory = target_of fs configFile
      in case resolveConfigFile fs configFileOrDirectory of
           Inl e \<Rightarrow> Inl e
         | Inr resolved \<Rightarrow>
             Inr \<lparr>resolvedConfigFile = resolved,
                  configDir = (case resolved of
                                 None \<Rightarrow> configFileOrDirectory
                               | Some f \<Rightarrow> if f \<noteq> [] then path_dirname fs f
                                           else configFileOrDirectory)\<rparr>)"

section \<open>The schema library\<close>

text \<open>
  Modelled from the spec: the schema library (zod, imported from
  \<^verbatim>\<open>playwright-core/lib/mcpBundle\<close>) is not among the sources. Following the spec, a
  schema is a declarative description, field by field, of a type, of the allowed literal
  values and of numeric bounds, evaluated by a generic validator that returns the
  violations it finds in order, each with its kind and its path; an object schema
  marked as open (\<open>Loose\<close>) permits unknown keys, as does the default (\<open>Strip\<close>),
  and only a \<open>Strict\<close> one reports them.
\<close>

datatype unknown_keys = Strip | Loose | Strict

datatype num_check = IsInt | GreaterThan real | AtLeast real | AtMost real

datatype schema =
    ZString
  | ZNumber "num_check list"
  | ZBoolean
  | ZNull
  | ZAny
  | ZEnum "string list"
  | ZLiteral string
  | ZInstanceof string
  | ZArray schema
  | ZRecord schema
  | ZObject "(string \<times> schema) list" unknown_keys
  | ZUnion "schema list"
  | ZOptional schema

text \<open>
  Modelled from the spec: the message texts of the library, a parameter of the validator.
\<close>

type_synonym messages = "issue_code \<Rightarrow> schema \<Rightarrow> jsval \<Rightarrow> string"

definition mk_issue :: "messages \<Rightarrow> issue_code \<Rightarrow> schema \<Rightarrow> jsval \<Rightarrow> issue" where
  "mk_issue msg c s v = \<lparr>code = c, path = [], message = msg c s v\<rparr>"

definition under :: "pathkey \<Rightarrow> issue list \<Rightarrow> issue list" where
  "under k iss = map (\<lambda>i. i\<lparr>path := k # path i\<rparr>) iss"

text \<open>
  Modelled from the spec: a numeric check and the kind of violation it reports; a whole
  number that is expected and not found counts as a wrong type, a bound as too small or
  too big.
\<close>

fun violates :: "num_check \<Rightarrow> real \<Rightarrow> issue_code option" where
  "violates IsInt x = (if of_int \<lfloor>x\<rfloor> = x then None else Some invalid_type)"
| "violates (GreaterThan a) x = (if a < x then None else Some too_small)"
| "violates (AtLeast a) x = (if a \<le> x then None else Some too_small)"
| "violates (AtMost a) x = (if x \<le> a then None else Some too_big)"

text \<open>
  Modelled from the spec: the checks of a number run in order; a wrong-type violation
  stops them.
\<close>

fun run_checks :: "messages \<Rightarrow> num_check list \<Rightarrow> real \<Rightarrow> issue list" where
  "run_checks msg [] x = []"
| "run_checks msg (c # cs) x =
     (case violates c x of
        None \<Rightarrow> run_checks msg cs x
      | Some c' \<Rightarrow>
          if c' = invalid_type then [mk_issue msg c' (ZNumber [c]) (JNum x)]
          else mk_issue msg c' (ZNumber [c]) (JNum x) # run_checks msg cs x)"

text \<open>
  Modelled from the spec: the alternatives of a union that failed on a bound only are
  told apart from those that failed on the type or the value.
\<close>

definition aborted :: "issue list \<Rightarrow> bool" where
  "aborted iss = list_ex (\<lambda>i. code i \<noteq> too_small \<and> code i \<noteq> too_big) iss"

text \<open>Modelled from the spec: the values an object schema reads fields from.\<close>

fun object_props :: "jsval \<Rightarrow> props option" where
  "object_props (JObj ps m) = Some ps"
| "object_props (JInstance c) = Some []"
| "object_props v = None"

text \<open>
  Modelled from the spec: the generic validator. The fields of an object schema are
  checked in the order of their declaration, each against the value the candidate holds
  under that key (\<^verbatim>\<open>undefined\<close> when absent), and their violations are reported under
  that key; keys the schema does not declare are not looked at unless the schema is
  strict. A union accepts what one of its alternatives accepts; when all fail and just
  one of them failed on bounds only, its violations are reported, and one violation of
  the union as a whole otherwise.
\<close>

fun zparse :: "messages \<Rightarrow> schema \<Rightarrow> jsval \<Rightarrow> issue list" where
  "zparse msg ZString v = (case v of JStr s \<Rightarrow> [] | _ \<Rightarrow> [mk_issue msg invalid_type ZString v])"
| "zparse msg (ZNumber cs) v =
     (case v of JNum x \<Rightarrow> run_checks msg cs x | _ \<Rightarrow> [mk_issue msg invalid_type (ZNumber cs) v])"
| "zparse msg ZBoolean v = (case v of JBool b \<Rightarrow> [] | _ \<Rightarrow> [mk_issue msg invalid_type ZBoolean v])"
| "zparse msg ZNull v = (case v of JNull \<Rightarrow> [] | _ \<Rightarrow> [mk_issue msg invalid_type ZNull v])"
| "zparse msg ZAny v = []"
| "zparse msg (ZEnum xs) v =
     (case v of
        JStr s \<Rightarrow> if s \<in> set xs then [] else [mk_issue msg invalid_value (ZEnum xs) v]
      | _ \<Rightarrow> [mk_issue msg invalid_value (ZEnum xs) v])"
| "zparse msg (ZLiteral s) v =
     (if v = JStr s then [] else [mk_issue msg invalid_value (ZLiteral s) v])"
| "zparse msg (ZInstanceof c) v =
     (if v = JInstance c then [] else [mk_issue msg (other_code ''custom'') (ZInstanceof c) v])"
| "zparse msg (ZArray s) v =
     (case v of
        JArr xs \<Rightarrow> concat (map (\<lambda>i. under (PIdx i) (zparse msg s (xs ! i))) [0..<length xs])
      | _ \<Rightarrow> [mk_issue msg invalid_type (ZArray s) v])"
| "zparse msg (ZRecord s) v =
     (case v of
        JObj ps m \<Rightarrow>
          concat (map (\<lambda>k. under (PKey k) (zparse msg s (lookup ps k))) (remdups (map fst ps)))
      | _ \<Rightarrow> [mk_issue msg invalid_type (ZRecord s) v])"
| "zparse msg (ZObject shape mode) v =
     (case object_props v of
        None \<Rightarrow> [mk_issue msg invalid_type (ZObject shape mode) v]
      | Some ps \<Rightarrow>
          concat (map (\<lambda>(k, s). under (PKey k) (zparse msg s (lookup ps k))) shape)
          @ (if mode = Strict \<and> (\<exists>k\<in>set (map fst ps). k \<notin> set (map fst shape))
             then [mk_issue msg (other_code ''unrecognized_keys'') (ZObject shape mode) v]
             else []))"
| "zparse msg (ZUnion options) v =
     (let results = map (\<lambda>s. zparse msg s v) options
      in if list_ex (\<lambda>r. r = []) results then []
         else case filter (\<lambda>r. \<not> aborted r) results of
                [r] \<Rightarrow> r
              | _ \<Rightarrow> [mk_issue msg (other_code ''invalid_union'') (ZUnion options) v])"
| "zparse msg (ZOptional s) v = (if v = JUndefined then [] else zparse msg s v)"

section \<open>The schema of the test options (\<^verbatim>\<open>schemas/testOptions.ts\<close>)\<close>

text \<open>
  The schemas of the source file, in its order. \<^verbatim>\<open>.int().positive()\<close> is
  \<open>[IsInt, GreaterThan 0]\<close>, \<^verbatim>\<open>.nonnegative()\<close> is \<open>AtLeast 0\<close>, \<^verbatim>\<open>.min(a).max(b)\<close>
  is \<open>[AtLeast a, AtMost b]\<close>.
\<close>

definition viewportSchema :: schema where
  "viewportSchema =
     ZObject
     [(''width'', ZNumber [IsInt, GreaterThan 0]),
      (''height'', ZNumber [IsInt, GreaterThan 0])]
     Strip"

definition geolocationSchema :: schema where
  "geolocationSchema =
     ZObject
     [(''longitude'', ZNumber [AtLeast (- 180), AtMost 180]),
      (''latitude'', ZNumber [AtLeast (- 90), AtMost 90]),
      (''accuracy'', ZOptional (ZNumber [AtLeast 0]))]
     Strip"

definition proxySchema :: schema where
  "proxySchema =
     ZObject
     [(''server'', ZString),
      (''bypass'', ZOptional ZString),
      (''username'', ZOptional ZString),
      (''password'', ZOptional ZString)]
     Strip"

text \<open>Lines 44-53, the object schema of one cookie.\<close>

definition cookieSchema :: schema where
  "cookieSchema =
     ZObject
     [(''name'', ZString),
      (''value'', ZString),
      (''domain'', ZString),
      (''path'', ZString),
      (''expires'', ZOptional (ZNumber [])),
      (''httpOnly'', ZOptional ZBoolean),
      (''secure'', ZOptional ZBoolean),
      (''sameSite'', ZOptional (ZEnum [''Strict'', ''Lax'', ''None'']))]
     Strip"

text \<open>Lines 56-59.\<close>

definition localStorageEntrySchema :: schema where
  "localStorageEntrySchema =
     ZObject
     [(''name'', ZString),
      (''value'', ZString)]
     Strip"

text \<open>Lines 54-60.\<close>

definition originSchema :: schema where
  "originSchema =
     ZObject
     [(''origin'', ZString),
      (''localStorage'', ZOptional (ZArray localStorageEntrySchema))]
     Strip"

definition storageStateSchema :: schema where
  "storageStateSchema =
     ZUnion
       [ZString,
        ZObject
          [(''cookies'', ZOptional (ZArray cookieSchema)),
           (''origins'', ZOptional (ZArray originSchema))]
          Strip]"

definition httpCredentialsSchema :: schema where
  "httpCredentialsSchema =
     ZObject
     [(''username'', ZString),
      (''password'', ZString),
      (''origin'', ZOptional ZString),
      (''send'', ZOptional (ZEnum [''always'', ''unauthorized'']))]
     Strip"

definition clientCertificateSchema :: schema where
  "clientCertificateSchema =
     ZObject
     [(''origin'', ZString),
      (''certPath'', ZOptional ZString),
      (''keyPath'', ZOptional ZString),
      (''pfxPath'', ZOptional ZString),
      (''cert'', ZOptional ZString),
      (''key'', ZOptional ZString),
      (''pfx'', ZOptional (ZInstanceof ''Buffer'')),
      (''passphrase'', ZOptional ZString)]
     Strip"

definition screenshotOptionsSchema :: schema where
  "screenshotOptionsSchema =
     ZObject
     [(''mode'', ZEnum [''on'', ''off'', ''only-on-failure'']),
      (''fullPage'', ZOptional ZBoolean),
      (''omitBackground'', ZOptional ZBoolean)]
     Strip"

definition traceOptionsSchema :: schema where
  "traceOptionsSchema =
     ZObject
     [(''mode'', ZEnum [''on'', ''off'', ''retain-on-failure'', ''on-first-retry'']),
      (''snapshots'', ZOptional ZBoolean),
      (''screenshots'', ZOptional ZBoolean),
      (''sources'', ZOptional ZBoolean),
      (''attachments'', ZOptional ZBoolean)]
     Strip"

text \<open>Lines 98-101.\<close>

definition videoSizeSchema :: schema where
  "videoSizeSchema =
     ZObject
     [(''width'', ZNumber [IsInt, GreaterThan 0]),
      (''height'', ZNumber [IsInt, GreaterThan 0])]
     Strip"

definition videoOptionsSchema :: schema where
  "videoOptionsSchema =
     ZObject
     [(''mode'', ZEnum [''on'', ''off'', ''retain-on-failure'', ''on-first-retry'']),
      (''size'', ZOptional videoSizeSchema)]
     Strip"

definition launchOptionsSchema :: schema where
  "launchOptionsSchema =
     ZObject
     [(''channel'', ZOptional ZString),
      (''chromiumSandbox'', ZOptional ZBoolean),
      (''downloadsPath'', ZOptional ZString),
      (''executablePath'', ZOptional ZString),
      (''args'', ZOptional (ZArray ZString)),
      (''ignoreDefaultArgs'', ZOptional (ZUnion [ZBoolean, ZArray ZString])),
      (''headless'', ZOptional (ZUnion [ZBoolean, ZLiteral ''new''])),
      (''proxy'', ZOptional proxySchema),
      (''timeout'', ZOptional (ZNumber [GreaterThan 0])),
      (''slowMo'', ZOptional (ZNumber [AtLeast 0])),
      (''devtools'', ZOptional ZBoolean),
      (''env'', ZOptional (ZRecord ZString)),
      (''handleSIGINT'', ZOptional ZBoolean),
      (''handleSIGTERM'', ZOptional ZBoolean),
      (''handleSIGHUP'', ZOptional ZBoolean)]
     Strip"

definition browserNameSchema :: schema where
  "browserNameSchema =
     ZEnum [''chromium'', ''firefox'', ''webkit'']"

text \<open>Lines 130-134.\<close>

definition agentOptionsSchema :: schema where
  "agentOptionsSchema =
     ZObject
     [(''model'', ZString),
      (''apiKey'', ZString),
      (''api'', ZOptional (ZEnum [''openai'', ''openai-compatible'', ''anthropic'', ''google'']))]
     Strip"

text \<open>Lines 142-147.\<close>

definition connectOptionsSchema :: schema where
  "connectOptionsSchema =
     ZObject
     [(''wsEndpoint'', ZString),
      (''headers'', ZOptional (ZRecord ZString)),
      (''timeout'', ZOptional (ZNumber [GreaterThan 0])),
      (''_exposeNetwork'', ZOptional ZString)]
     Strip"

text \<open>Lines 128-210: the declared keys of the test options, in the order of the source.\<close>

definition testOptionsShape :: "(string \<times> schema) list" where
  "testOptionsShape =
     [(''agentOptions'', ZOptional agentOptionsSchema),
      (''browserName'', ZOptional browserNameSchema),
      (''defaultBrowserType'', ZOptional browserNameSchema),
      (''channel'', ZOptional ZString),
      (''headless'', ZOptional ZBoolean),
      (''launchOptions'', ZOptional launchOptionsSchema),
      (''connectOptions'', ZOptional connectOptionsSchema),
      (''viewport'', ZOptional (ZUnion [viewportSchema, ZNull])),
      (''deviceScaleFactor'', ZOptional (ZNumber [GreaterThan 0])),
      (''hasTouch'', ZOptional ZBoolean),
      (''isMobile'', ZOptional ZBoolean),
      (''userAgent'', ZOptional ZString),
      (''baseURL'', ZOptional ZString),
      (''geolocation'', ZOptional (ZUnion [geolocationSchema, ZNull])),
      (''locale'', ZOptional ZString),
      (''timezoneId'', ZOptional ZString),
      (''offline'', ZOptional ZBoolean),
      (''acceptDownloads'', ZOptional ZBoolean),
      (''bypassCSP'', ZOptional ZBoolean),
      (''extraHTTPHeaders'', ZOptional (ZRecord ZString)),
      (''ignoreHTTPSErrors'', ZOptional ZBoolean),
      (''proxy'', ZOptional (ZUnion [proxySchema, ZNull])),
      (''clientCertificates'', ZOptional (ZArray clientCertificateSchema)),
      (''colorScheme'', ZOptional (ZEnum [''light'', ''dark'', ''no-preference'', ''null''])),
      (''forcedColors'', ZOptional (ZEnum [''active'', ''none'', ''null''])),
      (''reducedMotion'', ZOptional (ZEnum [''no-preference'', ''reduce'', ''null''])),
      (''httpCredentials'', ZOptional (ZUnion [httpCredentialsSchema, ZNull])),
      (''storageState'', ZOptional (ZUnion [storageStateSchema, ZNull])),
      (''javaScriptEnabled'', ZOptional ZBoolean),
      (''permissions'', ZOptional (ZArray ZString)),
      (''serviceWorkers'', ZOptional (ZEnum [''allow'', ''block''])),
      (''screenshot'', ZOptional (ZUnion [ZEnum [''on'', ''off'', ''only-on-failure''], screenshotOptionsSchema])),
      (''trace'', ZOptional (ZUnion [ZEnum [''on'', ''off'', ''retain-on-failure'', ''on-first-retry'', ''retry-with-trace''], traceOptionsSchema])),
      (''video'', ZOptional (ZUnion [ZEnum [''on'', ''off'', ''retain-on-failure'', ''on-first-retry'', ''retry-with-video''], videoOptionsSchema])),
      (''actionTimeout'', ZOptional (ZNumber [AtLeast 0])),
      (''navigationTimeout'', ZOptional (ZNumber [AtLeast 0])),
      (''testIdAttribute'', ZOptional ZString),
      (''ignoreSnapshots'', ZOptional ZBoolean),
      (''contextOptions'', ZOptional (ZRecord ZAny))]"

text \<open>Line 210: the object schema is \<^verbatim>\<open>.loose()\<close>.\<close>

definition testOptionsSchema :: schema where
  "testOptionsSchema = ZObject testOptionsShape Loose"

text \<open>
  Modelled from the spec: \<^verbatim>\<open>schema.parse(v)\<close> returns when the validator finds no
  violation and throws the violations found otherwise.
\<close>

definition schema_parse :: "messages \<Rightarrow> schema \<Rightarrow> jsval \<Rightarrow> parse_result" where
  "schema_parse msg s v = (case zparse msg s v of [] \<Rightarrow> ParseOk | i # iss \<Rightarrow> ZodError (i # iss))"

text \<open>The keys of a config that \<^verbatim>\<open>validateConfig\<close> and \<^verbatim>\<open>validateProject\<close> read themselves.\<close>

definition hand_checked_keys :: "string list" where
  "hand_checked_keys = [''testIgnore'', ''testMatch'', ''use'', ''projects'', ''tsconfig'']"

section \<open>Notions and example environments used to state the properties\<close>

text \<open>
  A small file system: a directory \<^verbatim>\<open>/w\<close> holding \<^verbatim>\<open>playwright.config.js\<close>,
  \<^verbatim>\<open>playwright.config.cts\<close> and \<^verbatim>\<open>custom.json\<close>.
\<close>

definition fs_example :: fs_env where
  "fs_example =
     \<lparr>existsSync = (\<lambda>p. p = ''/w'' \<or> p = ''/w/playwright.config.js''
                        \<or> p = ''/w/playwright.config.cts'' \<or> p = ''/w/custom.json''),
      isDirectory = (\<lambda>p. p = ''/w''),
      path_resolve = (\<lambda>a b. a @ ''/'' @ b),
      path_dirname = (\<lambda>p. ''/w''),
      cwd = ''/w''\<rparr>"

text \<open>
  A loader whose config file default-exports \<^verbatim>\<open>defineConfig({ retries: 1 })\<close>, and a
  validator environment whose schemas accept everything.
\<close>

definition loader_example :: "jsval loader_env" where
  "loader_example =
     \<lparr>requireOrImport =
        (\<lambda>f. case defineConfig [JObj [(''retries'', JNum 1)] False] of
                Inl e \<Rightarrow> Inl e
              | Inr c \<Rightarrow> Inr (JObj [(''default'', c)] False)),
      registerESMLoader = True,
      fileIsModule = (\<lambda>f. False),
      newFullConfigInternal = (\<lambda>l u. Inr u)\<rparr>"

definition accept_all :: validator_env where
  "accept_all =
     \<lparr>testConfigSchema_parse = (\<lambda>v. ParseOk),
      testOptionsSchema_parse = (\<lambda>v. ParseOk),
      tsconfigExists = (\<lambda>f t. True)\<rparr>"

text \<open>
  A validator environment whose top-level schema reports two issues for
  \<^verbatim>\<open>fullyParallel: 'yes'\<close> and whose options schema reports one for
  \<^verbatim>\<open>headless: 'yes'\<close>.
\<close>

definition headless_issue :: issue where
  "headless_issue =
     \<lparr>code = invalid_type, path = [PKey ''headless''],
      message = ''Invalid input: expected boolean, received string''\<rparr>"

definition fullyParallel_issue :: issue where
  "fullyParallel_issue =
     \<lparr>code = invalid_type, path = [PKey ''fullyParallel''],
      message = ''Invalid input: expected boolean, received string''\<rparr>"

definition globalTimeout_issue :: issue where
  "globalTimeout_issue =
     \<lparr>code = too_small, path = [PKey ''globalTimeout''],
      message = ''Too small: expected number to be >=0''\<rparr>"

definition strict_example :: validator_env where
  "strict_example =
     \<lparr>testConfigSchema_parse =
        (\<lambda>c. if getv c ''fullyParallel'' = JStr ''yes''
              then ZodError [fullyParallel_issue, globalTimeout_issue] else ParseOk),
      testOptionsSchema_parse =
        (\<lambda>u. if getv u ''headless'' = JStr ''yes'' then ZodError [headless_issue] else ParseOk),
      tsconfigExists = (\<lambda>f t. True)\<rparr>"

text \<open>
  A validator environment built from the schema library: some top-level schema, open,
  and the schema of the test options.
\<close>

definition plain_messages :: messages where
  "plain_messages c s v = ''Invalid input''"

definition example_config_shape :: "(string \<times> schema) list" where
  "example_config_shape =
     [(''fullyParallel'', ZOptional ZBoolean),
      (''globalTimeout'', ZOptional (ZNumber [AtLeast 0])),
      (''use'', ZOptional ZAny),
      (''projects'', ZOptional (ZArray ZAny)),
      (''tsconfig'', ZOptional ZString)]"

definition loose_example :: validator_env where
  "loose_example =
     \<lparr>testConfigSchema_parse = schema_parse plain_messages (ZObject example_config_shape Loose),
      testOptionsSchema_parse = schema_parse plain_messages testOptionsSchema,
      tsconfigExists = (\<lambda>f t. True)\<rparr>"

section \<open>Notions used to state the properties of the merger\<close>

text \<open>\<^verbatim>\<open>project.name\<close>, the key under which projects are matched.\<close>

abbreviation name_of :: "jsval \<Rightarrow> jsval" where
  "name_of p \<equiv> getv p ''name''"

text \<open>
  What the loop over the previous projects is expected to put at position \<open>i\<close>, given
  the map of overrides \<open>m\<close> it starts from: the project merged with the override of
  its name, when there is one and no earlier project has the same name, and the project
  itself otherwise.
\<close>

definition expectedProject :: "jsmap \<Rightarrow> jsval list \<Rightarrow> nat \<Rightarrow> jsval" where
  "expectedProject m bs i =
     (case map_of m (name_of (bs ! i)) of
        None \<Rightarrow> bs ! i
      | Some ov \<Rightarrow> if name_of (bs ! i) \<in> name_of ` set (take i bs) then bs ! i
                   else mergeProject (bs ! i) ov)"

section \<open>Properties of the property operations\<close>

lemma map_of_rev_upd:
  "map_of (rev (map (\<lambda>(k', v'). if k' = k then (k', v) else (k', v')) ps)) k' =
     (if k' = k \<and> k \<in> set (map fst ps) then Some v else map_of (rev ps) k')"
proof (induction ps rule: rev_induct)
  case Nil
  show ?case by simp
next
  case (snoc x ps)
  obtain a b where x: "x = (a, b)" by (cases x)
  show ?case using snoc by (auto simp: x split: if_splits)
qed

lemma lookup_set_prop [simp]:
  "lookup (set_prop k v ps) k' = (if k' = k then v else lookup ps k')"
  by (auto simp: lookup_def set_prop_def has_key_def map_of_rev_upd map_add_def split: option.splits)

lemma has_key_set_prop [simp]:
  "has_key (set_prop k v ps) k' = (k' = k \<or> has_key ps k')"
proof -
  have "fst ` (\<lambda>(k', v'). if k' = k then (k', v) else (k', v')) ` set ps = fst ` set ps"
    by (force simp: image_iff split: prod.splits if_splits)
  then show ?thesis
    by (auto simp: set_prop_def has_key_def image_image)
qed

lemma lookup_absent: "\<not> has_key ps k \<Longrightarrow> lookup ps k = JUndefined"
  by (auto simp: lookup_def has_key_def map_of_eq_None_iff[THEN iffD2] split: option.splits)

lemma has_key_Nil [simp]: "has_key [] k = False"
  by (simp add: has_key_def)

lemma lookup_Nil [simp]: "lookup [] k = JUndefined"
  by (simp add: lookup_def)

lemma has_key_snoc [simp]: "has_key (ps @ [(k, v)]) k' = (k' = k \<or> has_key ps k')"
  by (auto simp: has_key_def)

lemma lookup_snoc [simp]: "lookup (ps @ [(k, v)]) k' = (if k' = k then v else lookup ps k')"
  by (simp add: lookup_def)

lemma spread_into_snoc:
  "spread_into (src @ [(k, v)]) acc = set_prop k v (spread_into src acc)"
  by (simp add: spread_into_def)

lemma lookup_spread_into [simp]:
  "lookup (spread_into src acc) k = (if has_key src k then lookup src k else lookup acc k)"
  by (induction src rule: rev_induct) (auto simp: spread_into_snoc, simp add: spread_into_def)

lemma has_key_spread_into [simp]:
  "has_key (spread_into src acc) k = (has_key src k \<or> has_key acc k)"
  by (induction src rule: rev_induct) (auto simp: spread_into_snoc, simp_all add: spread_into_def)

section \<open>Properties of the merger\<close>

lemma getv_mergedObject:
  "getv (mergedObject r c) k =
     (if k = ''webServer'' then JArr (webServerSeq (getv r ''webServer'') @ webServerSeq (getv c ''webServer''))
      else if k = ''build'' then spread2 (getv r ''build'') (getv c ''build'')
      else if k = ''use'' then spread2 (getv r ''use'') (getv c ''use'')
      else if k = ''expect'' then spread2 (getv r ''expect'') (getv c ''expect'')
      else if has_key (own_props c) k then lookup (own_props c) k
      else lookup (own_props r) k)"
  by (simp add: mergedObject_def lookup_absent)


lemma getv_assign_projects:
  "getv (assign_projects (mergedObject r c) xs) k =
     (if k = ''projects'' then JArr xs else getv (mergedObject r c) k)"
  by (simp add: mergedObject_def)

lemma mergeStep_Inr_cases:
  assumes "mergeStep r c = Inr r'"
  shows "r' = mergedObject r c \<or> (\<exists>xs. r' = assign_projects (mergedObject r c) xs)"
  using assms
  by (auto simp: mergeStep_def Let_def split: if_splits sum.splits prod.splits)

lemma mergeStep_getv_other:
  assumes "mergeStep r c = Inr r'" and "k \<noteq> ''projects''"
  shows "getv r' k = getv (mergedObject r c) k"
  using mergeStep_Inr_cases [OF assms(1)] assms(2)
  by (auto simp: getv_assign_projects)

lemma markUsed_Inr:
  assumes "markUsed r = Inr r'"
  shows "\<exists>ps m. r = JObj ps m \<and> r' = JObj ps True"
  using assms by (cases r) auto

lemma defineConfig_pair:
  assumes "defineConfig [a, b] = Inr r"
  shows "\<exists>r0. mergeStep a b = Inr r0 \<and> markUsed r0 = Inr r"
  using assms by (auto simp: defineConfig_def split: sum.splits)

lemma getv_spread2_own:
  "lookup (own_props (spread2 x y)) k =
     (if has_key (own_props y) k then lookup (own_props y) k else lookup (own_props x) k)"
  by (simp add: spread2_def lookup_absent)

lemma has_key_spread2_own:
  "has_key (own_props (spread2 x y)) k = (has_key (own_props x) k \<or> has_key (own_props y) k)"
  by (auto simp: spread2_def)

text \<open>
  Claim C4. When two fragments are merged, each of the sub-objects \<^verbatim>\<open>expect\<close>,
  \<^verbatim>\<open>use\<close> and \<^verbatim>\<open>build\<close> of the result is the spread of the first fragment's
  sub-object followed by the second's: it has the keys of both, and every key holds the
  second fragment's value when the second fragment has the key and the first fragment's
  value otherwise. The sub-object is never replaced as a whole.
\<close>

theorem shallow_merge_sub_objects:
  assumes "defineConfig [a, b] = Inr r"
    and "s = ''expect'' \<or> s = ''use'' \<or> s = ''build''"
  shows "getv r s = spread2 (getv a s) (getv b s)
     \<and> has_key (own_props (getv r s)) k
         = (has_key (own_props (getv a s)) k \<or> has_key (own_props (getv b s)) k)
     \<and> lookup (own_props (getv r s)) k
         = (if has_key (own_props (getv b s)) k then lookup (own_props (getv b s)) k
            else lookup (own_props (getv a s)) k)"
proof -
  obtain r0 where step: "mergeStep a b = Inr r0" and mark: "markUsed r0 = Inr r"
    using defineConfig_pair [OF assms(1)] by blast
  obtain ps m where r0: "r0 = JObj ps m" and r: "r = JObj ps True"
    using markUsed_Inr [OF mark] by blast
  have "s \<noteq> ''projects''" using assms(2) by auto
  then have "getv r0 s = getv (mergedObject a b) s"
    using mergeStep_getv_other [OF step] by blast
  moreover have "getv r s = getv r0 s" by (simp add: r0 r)
  ultimately have eq: "getv r s = spread2 (getv a s) (getv b s)"
    using assms(2) by (auto simp: getv_mergedObject)
  show ?thesis
    unfolding eq by (simp add: getv_spread2_own has_key_spread2_own)
qed

theorem shallow_merge_sub_objects_witness:
  "defineConfig
     [JObj [(''use'', JObj [(''a'', JNum 1), (''b'', JNum 1)] False)] False,
      JObj [(''use'', JObj [(''b'', JNum 2)] False)] False]
   = Inr (JObj [(''use'', JObj [(''a'', JNum 1), (''b'', JNum 2)] False),
               (''expect'', JObj [] False), (''build'', JObj [] False),
               (''webServer'', JArr [])] True)
   \<and> getv (JObj [(''use'', JObj [(''a'', JNum 1), (''b'', JNum 2)] False),
               (''expect'', JObj [] False), (''build'', JObj [] False),
               (''webServer'', JArr [])] True) ''use''
     = spread2 (JObj [(''a'', JNum 1), (''b'', JNum 1)] False) (JObj [(''b'', JNum 2)] False)
   \<and> spread2 (JObj [(''a'', JNum 1), (''b'', JNum 1)] False) (JObj [(''b'', JNum 2)] False)
     = JObj [(''a'', JNum 1), (''b'', JNum 2)] False"
proof -
  have h: "defineConfig
     [JObj [(''use'', JObj [(''a'', JNum 1), (''b'', JNum 1)] False)] False,
      JObj [(''use'', JObj [(''b'', JNum 2)] False)] False]
   = Inr (JObj [(''use'', JObj [(''a'', JNum 1), (''b'', JNum 2)] False),
               (''expect'', JObj [] False), (''build'', JObj [] False),
               (''webServer'', JArr [])] True)"
    by (simp add: defineConfig_def mergeStep_def mergedObject_def spread2_def
        spread_into_def set_prop_def has_key_def lookup_def)
  have u: "''use'' = ''expect'' \<or> ''use'' = ''use'' \<or> ''use'' = ''build''" by simp
  have s: "spread2 (JObj [(''a'', JNum 1), (''b'', JNum 1)] False) (JObj [(''b'', JNum 2)] False)
     = JObj [(''a'', JNum 1), (''b'', JNum 2)] False"
    by (simp add: spread2_def spread_into_def set_prop_def has_key_def)
  show ?thesis
    using h s shallow_merge_sub_objects [OF h u, of "''a''"]
    by (simp add: lookup_def)
qed

text \<open>
  Claim C5. After a fold step the \<^verbatim>\<open>webServer\<close> of the result is the array made
  of the accumulator's normalised sequence followed by the current fragment's; an absent
  value normalises to the empty sequence, a single descriptor object to a one-element
  sequence and an array to itself.
\<close>

theorem webServer_concatenation:
  assumes "mergeStep result config = Inr r"
  shows "getv r ''webServer''
           = JArr (webServerSeq (getv result ''webServer'') @ webServerSeq (getv config ''webServer''))
     \<and> webServerSeq JUndefined = []
     \<and> webServerSeq (JObj ps m) = [JObj ps m]
     \<and> webServerSeq (JArr xs) = xs"
  using mergeStep_getv_other [OF assms, of "''webServer''"]
  by (simp add: getv_mergedObject)

theorem webServer_concatenation_witness:
  "mergeStep (JObj [(''webServer'', JObj [(''port'', JNum 1)] False)] False)
             (JObj [(''webServer'', JArr [JObj [(''port'', JNum 2)] False])] False)
     = Inr (JObj [(''webServer'', JArr [JObj [(''port'', JNum 1)] False, JObj [(''port'', JNum 2)] False]),
                 (''expect'', JObj [] False), (''use'', JObj [] False), (''build'', JObj [] False)] False)
   \<and> getv (JObj [(''webServer'', JArr [JObj [(''port'', JNum 1)] False, JObj [(''port'', JNum 2)] False]),
                 (''expect'', JObj [] False), (''use'', JObj [] False), (''build'', JObj [] False)] False)
        ''webServer''
     = JArr [JObj [(''port'', JNum 1)] False, JObj [(''port'', JNum 2)] False]"
proof -
  have h: "mergeStep (JObj [(''webServer'', JObj [(''port'', JNum 1)] False)] False)
             (JObj [(''webServer'', JArr [JObj [(''port'', JNum 2)] False])] False)
     = Inr (JObj [(''webServer'', JArr [JObj [(''port'', JNum 1)] False, JObj [(''port'', JNum 2)] False]),
                 (''expect'', JObj [] False), (''use'', JObj [] False), (''build'', JObj [] False)] False)"
    by (simp add: mergeStep_def mergedObject_def spread2_def
        spread_into_def set_prop_def has_key_def lookup_def)
  show ?thesis
    using h webServer_concatenation [OF h]
    by (simp add: lookup_def)
qed

section \<open>The map of overrides and the loop over the previous projects\<close>

lemma fst_upd_all: "fst ((\<lambda>(k', v'). if k' = k then (k', v) else (k', v')) x) = fst x"
  by (cases x) simp

lemma map_fst_upd: "map (fst \<circ> (\<lambda>(k', v'). if k' = k then (k', v) else (k', v'))) m = map fst m"
  by (rule map_cong) (simp_all add: fst_upd_all)

lemma fst_map_set: "fst ` set (map_set k v m) = insert k (fst ` set m)"
proof -
  have "set (map fst (map_set k v m)) = insert k (set (map fst m))"
    unfolding map_set_def by (simp add: map_fst_upd insert_absorb del: set_map)
  then show ?thesis by simp
qed

lemma distinct_map_set: "distinct (map fst m) \<Longrightarrow> distinct (map fst (map_set k v m))"
  unfolding map_set_def by (simp add: map_fst_upd)

lemma map_of_upd_all:
  "map_of (map (\<lambda>(k', v'). if k' = k then (k', v) else (k', v')) m) k' =
     (if k' = k \<and> k \<in> fst ` set m then Some v else map_of m k')"
proof (induction m)
  case Nil
  show ?case by simp
next
  case (Cons a m)
  obtain x y where a: "a = (x, y)" by (cases a)
  show ?case
  proof (cases "x = k")
    case True
    then show ?thesis using Cons by (simp add: a)
  next
    case False
    then show ?thesis using Cons by (force simp: a image_iff)
  qed
qed

lemma map_of_map_set: "map_of (map_set k v m) k' = (if k' = k then Some v else map_of m k')"
proof (cases "k \<in> fst ` set m")
  case True
  then show ?thesis by (simp add: map_set_def map_of_upd_all)
next
  case False
  then have "map_of m k = None" by (simp add: map_of_eq_None_iff)
  then show ?thesis using False
    by (cases "map_of m k'") (auto simp: map_set_def map_add_def)
qed

lemma set_map_set_sub: "(a, b) \<in> set (map_set k v m) \<Longrightarrow> (a, b) \<in> set m \<or> (a, b) = (k, v)"
  by (auto simp: map_set_def split: if_splits)

text \<open>What the map of overrides holds once every project of the fragment has been entered.\<close>

lemma collectOverrides_char:
  assumes "\<forall>p\<in>set os. \<not> nullish p"
    and "distinct (map fst m)"
    and "\<forall>(k, v)\<in>set m. k = name_of v \<and> truthy v"
    and "\<forall>p\<in>set os. truthy p"
  shows "\<exists>m'. collectOverrides os m = Inr m'
           \<and> distinct (map fst m')
           \<and> (\<forall>(k, v)\<in>set m'. k = name_of v \<and> truthy v)
           \<and> fst ` set m' = fst ` set m \<union> name_of ` set os
           \<and> (\<forall>n. map_of m' n = (case map_of (rev (map (\<lambda>p. (name_of p, p)) os)) n of
                                      Some p \<Rightarrow> Some p | None \<Rightarrow> map_of m n))"
  using assms
proof (induction os arbitrary: m)
  case Nil
  then show ?case by simp
next
  case (Cons p ps)
  let ?m1 = "map_set (name_of p) p m"
  have d: "distinct (map fst ?m1)" using Cons.prems(2) by (rule distinct_map_set)
  have inv: "\<forall>(k, v)\<in>set ?m1. k = name_of v \<and> truthy v"
    using Cons.prems(3,4) set_map_set_sub [of _ _ "name_of p" p m] by fastforce
  obtain m' where m': "collectOverrides ps ?m1 = Inr m'"
    "distinct (map fst m')" "\<forall>(k, v)\<in>set m'. k = name_of v \<and> truthy v"
    "fst ` set m' = fst ` set ?m1 \<union> name_of ` set ps"
    "\<forall>n. map_of m' n = (case map_of (rev (map (\<lambda>p. (name_of p, p)) ps)) n of
                                      Some p \<Rightarrow> Some p | None \<Rightarrow> map_of ?m1 n)"
    using Cons.IH [OF _ d inv] Cons.prems(1,4) by auto
  have "collectOverrides (p # ps) m = Inr m'"
    using m'(1) Cons.prems(1) by simp
  moreover have "fst ` set m' = fst ` set m \<union> name_of ` set (p # ps)"
    using m'(4) by (auto simp: fst_map_set)
  moreover have "\<forall>n. map_of m' n = (case map_of (rev (map (\<lambda>p. (name_of p, p)) (p # ps))) n of
                                      Some p \<Rightarrow> Some p | None \<Rightarrow> map_of m n)"
    using m'(5) by (auto simp: map_of_map_set map_add_def split: option.splits)
  ultimately show ?case using m'(2,3) by blast
qed

lemma collectOverrides_distinct:
  assumes "\<forall>p\<in>set os. \<not> nullish p"
    and "distinct (map name_of os)"
    and "name_of ` set os \<inter> fst ` set m = {}"
  shows "collectOverrides os m = Inr (m @ map (\<lambda>p. (name_of p, p)) os)"
  using assms
proof (induction os arbitrary: m)
  case Nil
  then show ?case by simp
next
  case (Cons p ps)
  have "map_set (name_of p) p m = m @ [(name_of p, p)]"
    using Cons.prems(3) by (auto simp: map_set_def)
  moreover have "collectOverrides ps (m @ [(name_of p, p)])
      = Inr ((m @ [(name_of p, p)]) @ map (\<lambda>p. (name_of p, p)) ps)"
    using Cons.prems by (intro Cons.IH) auto
  ultimately show ?case using Cons.prems(1) by simp
qed

lemma map_get_truthy:
  assumes "\<forall>(k, v)\<in>set m. truthy v"
  shows "truthy (map_get m n) = (map_of m n \<noteq> None)"
proof (cases "map_of m n")
  case None
  then show ?thesis by (simp add: map_get_def)
next
  case (Some v)
  then have "(n, v) \<in> set m" by (rule map_of_SomeD)
  then have "truthy v" using assms by auto
  then show ?thesis using Some by (simp add: map_get_def)
qed

lemma map_of_map_delete:
  "map_of (map_delete n m) x = (if x = n then None else map_of m x)"
  by (induction m) (auto simp: map_delete_def)

lemma distinct_map_delete: "distinct (map fst m) \<Longrightarrow> distinct (map fst (map_delete n m))"
  by (simp add: map_delete_def distinct_map_filter)

lemma filter_map_delete:
  "filter (\<lambda>(k, v). k \<notin> S) (map_delete n m) = filter (\<lambda>(k, v). k \<notin> insert n S) m"
  by (induction m) (auto simp: map_delete_def)

lemma filter_absent_key:
  assumes "map_of m n = None"
  shows "filter (\<lambda>(k, v). k \<notin> insert n S) m = filter (\<lambda>(k, v). k \<notin> S) m"
proof (rule filter_cong)
  fix x assume x: "x \<in> set m"
  obtain k v where kv: "x = (k, v)" by (cases x)
  have "k \<noteq> n" using assms x kv by (force simp: map_of_eq_None_iff image_iff)
  then show "(case x of (k, v) \<Rightarrow> k \<notin> insert n S) = (case x of (k, v) \<Rightarrow> k \<notin> S)"
    by (simp add: kv)
qed simp

lemma overrideLoop_char:
  assumes "\<forall>p\<in>set bs. \<not> nullish p"
    and "distinct (map fst m)"
    and "\<forall>(k, v)\<in>set m. truthy v"
  shows "\<exists>outs. overrideLoop bs m acc
            = Inr (acc @ outs, filter (\<lambda>(k, v). k \<notin> name_of ` set bs) m)
          \<and> length outs = length bs
          \<and> (\<forall>i<length bs. outs ! i = expectedProject m bs i)"
  using assms
proof (induction bs arbitrary: m acc)
  case Nil
  then show ?case by simp
next
  case (Cons p ps)
  let ?n = "name_of p"
  have np: "\<not> nullish p" and nps: "\<forall>p\<in>set ps. \<not> nullish p" using Cons.prems(1) by auto
  show ?case
  proof (cases "map_of m ?n")
    case None
    then have f: "\<not> truthy (map_get m ?n)"
      using map_get_truthy [OF Cons.prems(3)] by simp
    obtain outs where outs:
      "overrideLoop ps m (acc @ [p]) = Inr ((acc @ [p]) @ outs, filter (\<lambda>(k, v). k \<notin> name_of ` set ps) m)"
      "length outs = length ps" "\<forall>i<length ps. outs ! i = expectedProject m ps i"
      using Cons.IH [OF nps Cons.prems(2,3)] by blast
    have loop: "overrideLoop (p # ps) m acc
        = Inr (acc @ (p # outs), filter (\<lambda>(k, v). k \<notin> name_of ` set (p # ps)) m)"
      using np f outs(1) filter_absent_key [OF None, of "name_of ` set ps"] by (simp add: Let_def)
    have pt: "(p # outs) ! i = expectedProject m (p # ps) i" if "i < length (p # ps)" for i
    proof (cases i)
      case 0
      then show ?thesis using None by (simp add: expectedProject_def)
    next
      case (Suc j)
      then have j: "j < length ps" using that by simp
      show ?thesis
        using outs(3) j None
        by (cases "name_of (ps ! j) = ?n") (auto simp: Suc expectedProject_def split: option.splits)
    qed
    show ?thesis using loop outs(2) pt by (intro exI [of _ "p # outs"]) simp
  next
    case (Some ov)
    then have t: "truthy (map_get m ?n)"
      using map_get_truthy [OF Cons.prems(3)] by simp
    have g: "map_get m ?n = ov" using Some by (simp add: map_get_def)
    let ?m' = "map_delete ?n m"
    have d': "distinct (map fst ?m')" using Cons.prems(2) by (rule distinct_map_delete)
    have t': "\<forall>(k, v)\<in>set ?m'. truthy v" using Cons.prems(3) by (auto simp: map_delete_def)
    obtain outs where outs:
      "overrideLoop ps ?m' (acc @ [mergeProject p ov])
         = Inr ((acc @ [mergeProject p ov]) @ outs, filter (\<lambda>(k, v). k \<notin> name_of ` set ps) ?m')"
      "length outs = length ps" "\<forall>i<length ps. outs ! i = expectedProject ?m' ps i"
      using Cons.IH [OF nps d' t'] by blast
    have loop: "overrideLoop (p # ps) m acc
        = Inr (acc @ (mergeProject p ov # outs), filter (\<lambda>(k, v). k \<notin> name_of ` set (p # ps)) m)"
      using np t g outs(1) by (simp add: Let_def filter_map_delete)
    have pt: "(mergeProject p ov # outs) ! i = expectedProject m (p # ps) i"
      if "i < length (p # ps)" for i
    proof (cases i)
      case 0
      then show ?thesis using Some by (simp add: expectedProject_def)
    next
      case (Suc j)
      then have j: "j < length ps" using that by simp
      show ?thesis
        using outs(3) j Some
        by (cases "name_of (ps ! j) = ?n")
           (auto simp: Suc expectedProject_def map_of_map_delete split: option.splits)
    qed
    show ?thesis using loop outs(2) pt by (intro exI [of _ "mergeProject p ov # outs"]) simp
  qed
qed

section \<open>Projects of a fold step\<close>

lemma truthy_not_nullish: "truthy v \<Longrightarrow> \<not> nullish v"
  by (cases v) auto

lemma mergeStep_projects:
  assumes "\<not> nullish acc" and "\<not> nullish cfg"
    and "getv cfg ''projects'' = JArr os"
    and "or_empty (getv acc ''projects'') = JArr bs"
    and "\<forall>p\<in>set bs. \<not> nullish p"
    and "\<forall>p\<in>set os. truthy p"
  shows "\<exists>m outs. collectOverrides os [] = Inr m
          \<and> (\<forall>(k, v)\<in>set m. k = name_of v \<and> truthy v)
          \<and> fst ` set m = name_of ` set os
          \<and> (\<forall>n. map_of m n = map_of (rev (map (\<lambda>p. (name_of p, p)) os)) n)
          \<and> mergeStep acc cfg
              = Inr (assign_projects (mergedObject acc cfg)
                      (outs @ map snd (filter (\<lambda>(k, v). k \<notin> name_of ` set bs) m)))
          \<and> length outs = length bs
          \<and> (\<forall>i<length bs. outs ! i = expectedProject m bs i)"
proof -
  have nn: "\<forall>p\<in>set os. \<not> nullish p" using assms(6) truthy_not_nullish by blast
  obtain m where m: "collectOverrides os [] = Inr m" "distinct (map fst m)"
    "\<forall>(k, v)\<in>set m. k = name_of v \<and> truthy v"
    "fst ` set m = fst ` set [] \<union> name_of ` set os"
    "\<forall>n. map_of m n = (case map_of (rev (map (\<lambda>p. (name_of p, p)) os)) n of
                                      Some p \<Rightarrow> Some p | None \<Rightarrow> map_of [] n)"
    using collectOverrides_char [OF nn, of "[]"] assms(6) by auto
  have tm: "\<forall>(k, v)\<in>set m. truthy v" using m(3) by auto
  obtain outs where outs:
    "overrideLoop bs m [] = Inr ([] @ outs, filter (\<lambda>(k, v). k \<notin> name_of ` set bs) m)"
    "length outs = length bs" "\<forall>i<length bs. outs ! i = expectedProject m bs i"
    using overrideLoop_char [OF assms(5) m(2) tm] by blast
  have oe: "or_empty (JArr os) = JArr os" by (simp add: or_empty_def)
  have "mergeStep acc cfg
      = Inr (assign_projects (mergedObject acc cfg)
              (outs @ map snd (filter (\<lambda>(k, v). k \<notin> name_of ` set bs) m)))"
    using assms(1,2,3,4) m(1) outs(1) oe by (simp add: mergeStep_def Let_def)
  moreover have "\<forall>n. map_of m n = map_of (rev (map (\<lambda>p. (name_of p, p)) os)) n"
    using m(5) by (auto split: option.splits)
  ultimately show ?thesis using m(1,3,4) outs(2,3) by auto
qed

lemma map_of_named:
  assumes "distinct (map f xs)" and "x \<in> set xs"
  shows "map_of (map (\<lambda>p. (f p, p)) xs) (f x) = Some x"
  using assms by (induction xs) (auto simp: image_iff)

lemma map_of_named_last:
  assumes "n \<notin> f ` set ys" and "f x = n"
  shows "map_of (rev (map (\<lambda>p. (f p, p)) (xs @ x # ys))) n = Some x"
proof -
  have "map_of (rev (map (\<lambda>p. (f p, p)) ys)) n = None"
    using assms(1) by (force simp: map_of_eq_None_iff image_iff)
  then show ?thesis using assms(2) by (simp add: map_add_def)
qed

lemma map_of_named_None:
  "n \<notin> f ` set xs \<Longrightarrow> map_of (map (\<lambda>p. (f p, p)) xs) n = None"
  by (induction xs) auto

lemma snd_filter_named:
  "map snd (filter (\<lambda>(k, v). k \<notin> S) (map (\<lambda>p. (f p, p)) xs)) = filter (\<lambda>p. f p \<notin> S) xs"
  by (induction xs) auto

lemma getv_mergeProject:
  "getv (mergeProject p ov) k =
     (if k = ''use'' then spread2 (getv p ''use'') (getv ov ''use'')
      else if has_key (own_props ov) k then lookup (own_props ov) k
      else lookup (own_props p) k)"
  by (simp add: mergeProject_def lookup_absent)

text \<open>
  Claim C1, as amended. Take a fold step whose fragment declares an array of projects
  that are objects (truthy values) with pairwise distinct names, whose base projects are
  neither \<^verbatim>\<open>null\<close> nor \<^verbatim>\<open>undefined\<close>, and where the names of all these projects are
  primitive values (strings, or \<^verbatim>\<open>undefined\<close> when absent). The projects of the result
  are: for every position of the
  accumulated (base) list, the base project merged with the override of the same name
  when there is one and no earlier base project has that name, and the base project
  unchanged when no override has its name; then the overrides whose name is the name of no
  base project, in the order of the fragment. A merged project has under \<^verbatim>\<open>use\<close> the
  spread of the base project's \<^verbatim>\<open>use\<close> then the override's, and under every other
  key the override's value when the override has the key and the base project's otherwise.
  The base list is the accumulator's \<^verbatim>\<open>projects\<close>, empty when that is absent.
\<close>

theorem project_override_merge:
  assumes "\<not> nullish acc" and "\<not> nullish cfg"
    and "getv cfg ''projects'' = JArr os"
    and "or_empty (getv acc ''projects'') = JArr bs"
    and "\<forall>p\<in>set bs. \<not> nullish p"
    and "\<forall>p\<in>set os. truthy p"
    and "distinct (map name_of os)"
    and "\<forall>p\<in>set bs. primitive (name_of p)"
    and "\<forall>p\<in>set os. primitive (name_of p)"
  shows "\<exists>r out. mergeStep acc cfg = Inr r \<and> getv r ''projects'' = JArr out
     \<and> length out = length bs + length (filter (\<lambda>p. name_of p \<notin> name_of ` set bs) os)
     \<and> (\<forall>i<length bs. \<forall>ov\<in>set os.
           name_of ov = name_of (bs ! i) \<and> name_of (bs ! i) \<notin> name_of ` set (take i bs)
           \<longrightarrow> out ! i = mergeProject (bs ! i) ov
               \<and> getv (out ! i) ''use'' = spread2 (getv (bs ! i) ''use'') (getv ov ''use'')
               \<and> (\<forall>k. k \<noteq> ''use'' \<longrightarrow>
                     getv (out ! i) k = (if has_key (own_props ov) k then lookup (own_props ov) k
                                         else lookup (own_props (bs ! i)) k)))
     \<and> (\<forall>i<length bs. name_of (bs ! i) \<notin> name_of ` set os \<longrightarrow> out ! i = bs ! i)
     \<and> drop (length bs) out = filter (\<lambda>p. name_of p \<notin> name_of ` set bs) os"
proof -
  obtain m outs where m: "collectOverrides os [] = Inr m"
    and step: "mergeStep acc cfg
              = Inr (assign_projects (mergedObject acc cfg)
                      (outs @ map snd (filter (\<lambda>(k, v). k \<notin> name_of ` set bs) m)))"
    and len: "length outs = length bs"
    and pt: "\<forall>i<length bs. outs ! i = expectedProject m bs i"
    using mergeStep_projects [OF assms(1-6)] by blast
  have nn: "\<forall>p\<in>set os. \<not> nullish p" using assms(6) truthy_not_nullish by blast
  have "collectOverrides os [] = Inr ([] @ map (\<lambda>p. (name_of p, p)) os)"
    using nn assms(7) by (intro collectOverrides_distinct) auto
  then have meq: "m = map (\<lambda>p. (name_of p, p)) os" using m by simp
  let ?tail = "filter (\<lambda>p. name_of p \<notin> name_of ` set bs) os"
  let ?out = "outs @ ?tail"
  have tail: "map snd (filter (\<lambda>(k, v). k \<notin> name_of ` set bs) m) = ?tail"
    unfolding meq by (rule snd_filter_named)
  have r: "mergeStep acc cfg = Inr (assign_projects (mergedObject acc cfg) ?out)"
    using step tail by simp
  have g: "getv (assign_projects (mergedObject acc cfg) ?out) ''projects'' = JArr ?out"
    by (simp add: getv_assign_projects)
  have matched: "?out ! i = mergeProject (bs ! i) ov"
    if "i < length bs" "ov \<in> set os" "name_of ov = name_of (bs ! i)"
       "name_of (bs ! i) \<notin> name_of ` set (take i bs)" for i ov
  proof -
    have "map_of m (name_of (bs ! i)) = Some ov"
      using map_of_named [OF assms(7) that(2)] that(3) by (simp add: meq)
    then have "expectedProject m bs i = mergeProject (bs ! i) ov"
      using that(4) by (simp add: expectedProject_def)
    then show ?thesis using pt that(1) len by (simp add: nth_append)
  qed
  have unmatched: "?out ! i = bs ! i"
    if "i < length bs" "name_of (bs ! i) \<notin> name_of ` set os" for i
  proof -
    have "map_of m (name_of (bs ! i)) = None"
      using map_of_named_None [OF that(2)] by (simp add: meq)
    then have "expectedProject m bs i = bs ! i" by (simp add: expectedProject_def)
    then show ?thesis using pt that(1) len by (simp add: nth_append)
  qed
  show ?thesis
  proof (intro exI [of _ "assign_projects (mergedObject acc cfg) ?out"] exI [of _ ?out] conjI)
    show "mergeStep acc cfg = Inr (assign_projects (mergedObject acc cfg) ?out)" by (rule r)
    show "getv (assign_projects (mergedObject acc cfg) ?out) ''projects'' = JArr ?out" by (rule g)
    show "length ?out = length bs + length ?tail" using len by simp
    show "\<forall>i<length bs. \<forall>ov\<in>set os.
           name_of ov = name_of (bs ! i) \<and> name_of (bs ! i) \<notin> name_of ` set (take i bs)
           \<longrightarrow> ?out ! i = mergeProject (bs ! i) ov
               \<and> getv (?out ! i) ''use'' = spread2 (getv (bs ! i) ''use'') (getv ov ''use'')
               \<and> (\<forall>k. k \<noteq> ''use'' \<longrightarrow>
                     getv (?out ! i) k = (if has_key (own_props ov) k then lookup (own_props ov) k
                                         else lookup (own_props (bs ! i)) k))"
      using matched by (simp add: getv_mergeProject)
    show "\<forall>i<length bs. name_of (bs ! i) \<notin> name_of ` set os \<longrightarrow> ?out ! i = bs ! i"
      using unmatched by blast
    show "drop (length bs) ?out = ?tail" using len by simp
  qed
qed

theorem project_override_merge_witness:
  "\<exists>r. mergeStep
         (JObj [(''projects'', JArr [JObj [(''name'', JStr ''a''), (''use'', JObj [(''x'', JNum 1)] False)] False])] False)
         (JObj [(''projects'', JArr [JObj [(''name'', JStr ''a''), (''use'', JObj [(''x'', JNum 2), (''y'', JNum 3)] False)] False,
                                     JObj [(''name'', JStr ''b'')] False])] False) = Inr r
       \<and> getv r ''projects''
           = JArr [JObj [(''name'', JStr ''a''), (''use'', JObj [(''x'', JNum 2), (''y'', JNum 3)] False)] False,
                   JObj [(''name'', JStr ''b'')] False]"
proof -
  let ?pa = "JObj [(''name'', JStr ''a''), (''use'', JObj [(''x'', JNum 1)] False)] False"
  let ?oa = "JObj [(''name'', JStr ''a''), (''use'', JObj [(''x'', JNum 2), (''y'', JNum 3)] False)] False"
  let ?ob = "JObj [(''name'', JStr ''b'')] False"
  let ?acc = "JObj [(''projects'', JArr [?pa])] False"
  let ?cfg = "JObj [(''projects'', JArr [?oa, ?ob])] False"
  have h1: "\<not> nullish ?acc" and h2: "\<not> nullish ?cfg" by simp_all
  have h3: "getv ?cfg ''projects'' = JArr [?oa, ?ob]" by (simp add: lookup_def)
  have h4: "or_empty (getv ?acc ''projects'') = JArr [?pa]" by (simp add: lookup_def or_empty_def)
  have h5: "\<forall>p\<in>set [?pa]. \<not> nullish p" by simp
  have h6: "\<forall>p\<in>set [?oa, ?ob]. truthy p" by simp
  have h7: "distinct (map name_of [?oa, ?ob])" by (simp add: lookup_def)
  have h8: "\<forall>p\<in>set [?pa]. primitive (name_of p)" by (simp add: lookup_def)
  have h9: "\<forall>p\<in>set [?oa, ?ob]. primitive (name_of p)" by (simp add: lookup_def)
  obtain r out where r: "mergeStep ?acc ?cfg = Inr r" and g: "getv r ''projects'' = JArr out"
    and len: "length out = length [?pa] + length (filter (\<lambda>p. name_of p \<notin> name_of ` set [?pa]) [?oa, ?ob])"
    and m: "\<forall>i<length [?pa]. \<forall>ov\<in>set [?oa, ?ob].
           name_of ov = name_of ([?pa] ! i) \<and> name_of ([?pa] ! i) \<notin> name_of ` set (take i [?pa])
           \<longrightarrow> out ! i = mergeProject ([?pa] ! i) ov
               \<and> getv (out ! i) ''use'' = spread2 (getv ([?pa] ! i) ''use'') (getv ov ''use'')
               \<and> (\<forall>k. k \<noteq> ''use'' \<longrightarrow>
                     getv (out ! i) k = (if has_key (own_props ov) k then lookup (own_props ov) k
                                         else lookup (own_props ([?pa] ! i)) k))"
    and d: "drop (length [?pa]) out = filter (\<lambda>p. name_of p \<notin> name_of ` set [?pa]) [?oa, ?ob]"
    using project_override_merge [OF h1 h2 h3 h4 h5 h6 h7 h8 h9] by blast
  have tl: "drop 1 out = [?ob]" using d by (simp add: lookup_def)
  have "out ! 0 = mergeProject ?pa ?oa" using m by (simp add: lookup_def)
  then have hd: "out ! 0 = ?oa"
    by (simp add: mergeProject_def spread2_def spread_into_def set_prop_def has_key_def lookup_def)
  have "length out = 2" using len by (simp add: lookup_def)
  then have "out = out ! 0 # drop 1 out"
    by (cases out) (simp_all add: drop_Suc)
  then have "out = [?oa, ?ob]" using hd tl by simp
  then show ?thesis using r g by blast
qed

text \<open>
  The claim as stated fails when two projects of the fragment share a name: the map of
  overrides keeps one entry per name, holding the last project of that name at the place
  of the first. Here the first override named \<open>a\<close> is not appended although no base
  project has its name, and the second comes before \<open>b\<close>.
\<close>

theorem project_override_duplicate_names_counterexample:
  "mergeStep (JObj [] False)
     (JObj [(''projects'', JArr [JObj [(''name'', JStr ''a''), (''v'', JNum 1)] False,
                                 JObj [(''name'', JStr ''b'')] False,
                                 JObj [(''name'', JStr ''a''), (''v'', JNum 2)] False])] False)
   = Inr (JObj [(''projects'', JArr [JObj [(''name'', JStr ''a''), (''v'', JNum 2)] False,
                                     JObj [(''name'', JStr ''b'')] False]),
                (''expect'', JObj [] False), (''use'', JObj [] False),
                (''build'', JObj [] False), (''webServer'', JArr [])] False)
   \<and> JObj [(''name'', JStr ''a''), (''v'', JNum 1)] False
       \<notin> set [JObj [(''name'', JStr ''a''), (''v'', JNum 2)] False, JObj [(''name'', JStr ''b'')] False]
   \<and> [JObj [(''name'', JStr ''a''), (''v'', JNum 2)] False, JObj [(''name'', JStr ''b'')] False]
       \<noteq> filter (\<lambda>p. name_of p \<notin> name_of ` set [])
            [JObj [(''name'', JStr ''a''), (''v'', JNum 1)] False,
             JObj [(''name'', JStr ''b'')] False,
             JObj [(''name'', JStr ''a''), (''v'', JNum 2)] False]"
  by (simp add: mergeStep_def mergedObject_def spread2_def spread_into_def set_prop_def
      has_key_def lookup_def or_empty_def map_set_def map_get_def map_delete_def)

text \<open>
  Claim C10. Take a fold step whose projects, in the base list and in the fragment, have
  primitive names (strings, or \<^verbatim>\<open>undefined\<close> when absent), the fragment's projects
  being objects (truthy values) and the base projects neither \<^verbatim>\<open>null\<close> nor
  \<^verbatim>\<open>undefined\<close>. When base projects share a name \<open>n\<close> and the fragment holds an override
  of that name (the last one of that name, should the fragment hold several), the
  earliest base project named \<open>n\<close> is merged with the override, every later base
  project named \<open>n\<close> is passed on unchanged, and no project named \<open>n\<close> is appended
  after the base positions.
\<close>

theorem duplicate_base_names:
  assumes "\<not> nullish acc" and "\<not> nullish cfg"
    and "getv cfg ''projects'' = JArr os"
    and "or_empty (getv acc ''projects'') = JArr bs"
    and "\<forall>p\<in>set bs. \<not> nullish p"
    and "\<forall>p\<in>set os. truthy p"
    and "i < length bs" and "name_of (bs ! i) = n"
    and "n \<notin> name_of ` set (take i bs)"
    and "os = os1 @ ov # os2" and "name_of ov = n"
    and "n \<notin> name_of ` set os2"
    and "\<forall>p\<in>set bs. primitive (name_of p)"
    and "\<forall>p\<in>set os. primitive (name_of p)"
  shows "\<exists>r out. mergeStep acc cfg = Inr r \<and> getv r ''projects'' = JArr out
     \<and> length bs \<le> length out
     \<and> out ! i = mergeProject (bs ! i) ov
     \<and> (\<forall>j. i < j \<and> j < length bs \<and> name_of (bs ! j) = n \<longrightarrow> out ! j = bs ! j)
     \<and> (\<forall>p\<in>set (drop (length bs) out). name_of p \<noteq> n)"
proof -
  obtain m outs where m: "collectOverrides os [] = Inr m"
    and inv: "\<forall>(k, v)\<in>set m. k = name_of v \<and> truthy v"
    and mo: "\<forall>n. map_of m n = map_of (rev (map (\<lambda>p. (name_of p, p)) os)) n"
    and step: "mergeStep acc cfg
              = Inr (assign_projects (mergedObject acc cfg)
                      (outs @ map snd (filter (\<lambda>(k, v). k \<notin> name_of ` set bs) m)))"
    and len: "length outs = length bs"
    and pt: "\<forall>i<length bs. outs ! i = expectedProject m bs i"
    using mergeStep_projects [OF assms(1-6)] by blast
  let ?tail = "map snd (filter (\<lambda>(k, v). k \<notin> name_of ` set bs) m)"
  let ?out = "outs @ ?tail"
  have mn: "map_of m n = Some ov"
    using map_of_named_last [OF assms(12,11)] mo assms(10) by simp
  have first: "?out ! i = mergeProject (bs ! i) ov"
  proof -
    have "expectedProject m bs i = mergeProject (bs ! i) ov"
      using mn assms(8,9) by (simp add: expectedProject_def)
    then show ?thesis using pt assms(7) len by (simp add: nth_append)
  qed
  have later: "?out ! j = bs ! j" if "i < j" "j < length bs" "name_of (bs ! j) = n" for j
  proof -
    have "bs ! i \<in> set (take j bs)"
      using that(1,2) by (auto simp: in_set_conv_nth intro!: exI [of _ i])
    then have "n \<in> name_of ` set (take j bs)" using assms(8) by force
    then have "expectedProject m bs j = bs ! j"
      using mn that(3) by (simp add: expectedProject_def)
    then show ?thesis using pt that(2) len by (simp add: nth_append)
  qed
  have nin: "n \<in> name_of ` set bs" using assms(7,8) by force
  have tailn: "name_of p \<noteq> n" if "p \<in> set ?tail" for p
  proof -
    from that obtain x where x: "x \<in> set (filter (\<lambda>(k, v). k \<notin> name_of ` set bs) m)" "p = snd x"
      by (auto simp: image_iff)
    obtain k v where kv: "x = (k, v)" by (cases x)
    have k: "(k, p) \<in> set m" "k \<notin> name_of ` set bs"
      using x by (simp_all add: kv)
    then have "k = name_of p" using inv by auto
    then show ?thesis using k(2) nin by auto
  qed
  show ?thesis
  proof (intro exI [of _ "assign_projects (mergedObject acc cfg) ?out"] exI [of _ ?out] conjI)
    show "mergeStep acc cfg = Inr (assign_projects (mergedObject acc cfg) ?out)" by (rule step)
    show "getv (assign_projects (mergedObject acc cfg) ?out) ''projects'' = JArr ?out"
      by (simp add: getv_assign_projects)
    show "length bs \<le> length ?out" using len by simp
    show "?out ! i = mergeProject (bs ! i) ov" by (rule first)
    show "\<forall>j. i < j \<and> j < length bs \<and> name_of (bs ! j) = n \<longrightarrow> ?out ! j = bs ! j"
      using later by blast
    show "\<forall>p\<in>set (drop (length bs) ?out). name_of p \<noteq> n"
      using tailn len by simp
  qed
qed

theorem duplicate_base_names_witness:
  "\<exists>r out. mergeStep
         (JObj [(''projects'', JArr [JObj [(''name'', JStr ''a''), (''v'', JNum 1)] False,
                                     JObj [(''name'', JStr ''a''), (''v'', JNum 2)] False])] False)
         (JObj [(''projects'', JArr [JObj [(''name'', JStr ''a''), (''w'', JNum 3)] False])] False) = Inr r
       \<and> getv r ''projects'' = JArr out
       \<and> out ! 0 = JObj [(''name'', JStr ''a''), (''v'', JNum 1), (''w'', JNum 3), (''use'', JObj [] False)] False
       \<and> out ! 1 = JObj [(''name'', JStr ''a''), (''v'', JNum 2)] False
       \<and> JStr ''a'' \<notin> name_of ` set (drop 2 out)"
proof -
  let ?p1 = "JObj [(''name'', JStr ''a''), (''v'', JNum 1)] False"
  let ?p2 = "JObj [(''name'', JStr ''a''), (''v'', JNum 2)] False"
  let ?ov = "JObj [(''name'', JStr ''a''), (''w'', JNum 3)] False"
  let ?acc = "JObj [(''projects'', JArr [?p1, ?p2])] False"
  let ?cfg = "JObj [(''projects'', JArr [?ov])] False"
  have h1: "\<not> nullish ?acc" and h2: "\<not> nullish ?cfg" by simp_all
  have h3: "getv ?cfg ''projects'' = JArr [?ov]" by (simp add: lookup_def)
  have h4: "or_empty (getv ?acc ''projects'') = JArr [?p1, ?p2]" by (simp add: lookup_def or_empty_def)
  have h5: "\<forall>p\<in>set [?p1, ?p2]. \<not> nullish p" by simp
  have h6: "\<forall>p\<in>set [?ov]. truthy p" by simp
  have h7: "0 < length [?p1, ?p2]" by simp
  have h8: "name_of ([?p1, ?p2] ! 0) = JStr ''a''" by (simp add: lookup_def)
  have h9: "JStr ''a'' \<notin> name_of ` set (take 0 [?p1, ?p2])" by simp
  have h10: "[?ov] = [] @ ?ov # []" by simp
  have h11: "name_of ?ov = JStr ''a''" by (simp add: lookup_def)
  have h12: "JStr ''a'' \<notin> name_of ` set []" by simp
  have h13: "\<forall>p\<in>set [?p1, ?p2]. primitive (name_of p)" by (simp add: lookup_def)
  have h14: "\<forall>p\<in>set [?ov]. primitive (name_of p)" by (simp add: lookup_def)
  obtain r out where r: "mergeStep ?acc ?cfg = Inr r" and g: "getv r ''projects'' = JArr out"
    and first: "out ! 0 = mergeProject ([?p1, ?p2] ! 0) ?ov"
    and later: "\<forall>j. 0 < j \<and> j < length [?p1, ?p2] \<and> name_of ([?p1, ?p2] ! j) = JStr ''a''
                  \<longrightarrow> out ! j = [?p1, ?p2] ! j"
    and tail: "\<forall>p\<in>set (drop (length [?p1, ?p2]) out). name_of p \<noteq> JStr ''a''"
    using duplicate_base_names [OF h1 h2 h3 h4 h5 h6 h7 h8 h9 h10 h11 h12 h13 h14] by blast
  have a: "out ! 0 = JObj [(''name'', JStr ''a''), (''v'', JNum 1), (''w'', JNum 3), (''use'', JObj [] False)] False"
    using first
    by (simp add: mergeProject_def spread2_def spread_into_def set_prop_def has_key_def lookup_def)
  have "(0::nat) < 1 \<and> 1 < length [?p1, ?p2] \<and> name_of ([?p1, ?p2] ! 1) = JStr ''a''"
    by (simp add: lookup_def)
  then have "out ! 1 = [?p1, ?p2] ! 1" using later by blast
  then have b: "out ! 1 = ?p2" by simp
  have "length [?p1, ?p2] = 2" by simp
  then have "\<forall>p\<in>set (drop 2 out). name_of p \<noteq> JStr ''a''" using tail by metis
  then have c: "JStr ''a'' \<notin> name_of ` set (drop 2 out)" by force
  show ?thesis using r g a b c by blast
qed

section \<open>The sentinel does not change what a merge computes\<close>


lemma assign_projects_mark:
  "assign_projects (JObj qs m') xs = JObj (set_prop ''projects'' (JArr xs) qs) m'"
  by simp







section \<open>Merging fragments with disjoint keys\<close>









section \<open>The location resolver\<close>

lemma fromDirectory_find:
  assumes "\<forall>a b. path_resolve fs a b \<noteq> []"
  shows "resolveConfigFileFromDirectory fs d exts
           = find (existsSync fs) (map (\<lambda>ext. path_resolve fs d (''playwright.config'' @ ext)) exts)"
  using assms by (induction exts) (auto simp: resolveConfig_def Let_def)

lemma truthy_find:
  assumes "\<forall>a b. path_resolve fs a b \<noteq> []"
  shows "truthy_file (find P (map (\<lambda>ext. path_resolve fs d (''playwright.config'' @ ext)) exts))
           = (find P (map (\<lambda>ext. path_resolve fs d (''playwright.config'' @ ext)) exts) \<noteq> None)"
  using assms by (induction exts) auto

text \<open>
  Claim C7. Let the target be the given path resolved against the working directory, or
  the working directory when no path is given. If the target does not exist, resolution
  fails with an error naming it. If it is a directory, the resolved file is the first
  existing one among \<^verbatim>\<open>playwright.config\<close> with the extensions \<^verbatim>\<open>.ts\<close>,
  \<^verbatim>\<open>.js\<close>, \<^verbatim>\<open>.mts\<close>, \<^verbatim>\<open>.mjs\<close>, \<^verbatim>\<open>.cts\<close>, \<^verbatim>\<open>.cjs\<close> tried in this
  order, with its parent directory as base directory; if none exists there is no config
  file and the directory itself is the base directory. If the target is an existing file
  it is the resolved file whatever its extension, with its parent as base directory.
  (\<^verbatim>\<open>path.resolve\<close> and \<^verbatim>\<open>process.cwd()\<close> never give the empty string.)
\<close>

theorem resolveConfigLocation_cases:
  assumes "\<forall>a b. path_resolve fs a b \<noteq> []" and "cwd fs \<noteq> []"
  shows "(\<not> existsSync fs (target_of fs configFile) \<longrightarrow>
            resolveConfigLocation fs configFile
              = Inl (Error (target_of fs configFile @ '' does not exist'')))
     \<and> (existsSync fs (target_of fs configFile) \<and> isDirectory fs (target_of fs configFile) \<longrightarrow>
            resolveConfigLocation fs configFile =
              (case find (existsSync fs)
                      (map (\<lambda>ext. path_resolve fs (target_of fs configFile) (''playwright.config'' @ ext))
                         [''.ts'', ''.js'', ''.mts'', ''.mjs'', ''.cts'', ''.cjs'']) of
                 Some f \<Rightarrow> Inr \<lparr>resolvedConfigFile = Some f, configDir = path_dirname fs f\<rparr>
               | None \<Rightarrow> Inr \<lparr>resolvedConfigFile = None, configDir = target_of fs configFile\<rparr>))
     \<and> (existsSync fs (target_of fs configFile) \<and> \<not> isDirectory fs (target_of fs configFile) \<longrightarrow>
            resolveConfigLocation fs configFile
              = Inr \<lparr>resolvedConfigFile = Some (target_of fs configFile),
                     configDir = path_dirname fs (target_of fs configFile)\<rparr>)"
proof -
  let ?t = "target_of fs configFile"
  have ne: "?t \<noteq> []" using assms by (cases configFile) (simp_all add: target_of_def)
  let ?cands = "map (\<lambda>ext. path_resolve fs ?t (''playwright.config'' @ ext))
                         [''.ts'', ''.js'', ''.mts'', ''.mjs'', ''.cts'', ''.cjs'']"
  have fd: "resolveConfigFileFromDirectory fs ?t config_extensions = find (existsSync fs) ?cands"
    unfolding config_extensions_def using assms(1) by (rule fromDirectory_find)
  have tf: "truthy_file (find (existsSync fs) ?cands) = (find (existsSync fs) ?cands \<noteq> None)"
    using assms(1) by (rule truthy_find)
  have a: "\<not> existsSync fs ?t \<Longrightarrow>
      resolveConfigLocation fs configFile = Inl (Error (?t @ '' does not exist''))"
    unfolding resolveConfigLocation_def by (simp add: resolveConfigFile_def Let_def)
  have b: "existsSync fs ?t \<and> isDirectory fs ?t \<Longrightarrow>
      resolveConfigLocation fs configFile =
              (case find (existsSync fs) ?cands of
                 Some f \<Rightarrow> Inr \<lparr>resolvedConfigFile = Some f, configDir = path_dirname fs f\<rparr>
               | None \<Rightarrow> Inr \<lparr>resolvedConfigFile = None, configDir = ?t\<rparr>)"
    unfolding resolveConfigLocation_def resolveConfigFile_def fd Let_def
    using tf by (cases "find (existsSync fs) ?cands") simp_all
  have c: "existsSync fs ?t \<and> \<not> isDirectory fs ?t \<Longrightarrow>
      resolveConfigLocation fs configFile
              = Inr \<lparr>resolvedConfigFile = Some ?t, configDir = path_dirname fs ?t\<rparr>"
    unfolding resolveConfigLocation_def using ne by (simp add: resolveConfigFile_def Let_def)
  show ?thesis using a b c by blast
qed

theorem resolveConfigLocation_cases_witness:
  "resolveConfigLocation fs_example (Some ''missing'') = Inl (Error ''/w/missing does not exist'')
   \<and> resolveConfigLocation fs_example None
       = Inr \<lparr>resolvedConfigFile = Some ''/w/playwright.config.js'', configDir = ''/w''\<rparr>
   \<and> resolveConfigLocation fs_example (Some ''custom.json'')
       = Inr \<lparr>resolvedConfigFile = Some ''/w/custom.json'', configDir = ''/w''\<rparr>"
proof -
  have h1: "\<forall>a b. path_resolve fs_example a b \<noteq> []" by (simp add: fs_example_def)
  have h2: "cwd fs_example \<noteq> []" by (simp add: fs_example_def)
  have a: "\<not> existsSync fs_example (target_of fs_example (Some ''missing''))"
    by (simp add: fs_example_def target_of_def)
  have b: "existsSync fs_example (target_of fs_example None)
           \<and> isDirectory fs_example (target_of fs_example None)"
    by (simp add: fs_example_def target_of_def)
  have c: "existsSync fs_example (target_of fs_example (Some ''custom.json''))
           \<and> \<not> isDirectory fs_example (target_of fs_example (Some ''custom.json''))"
    by (simp add: fs_example_def target_of_def)
  have "resolveConfigLocation fs_example (Some ''missing'')
          = Inl (Error (target_of fs_example (Some ''missing'') @ '' does not exist''))"
    using resolveConfigLocation_cases [OF h1 h2, of "Some ''missing''"] a by blast
  moreover have "resolveConfigLocation fs_example None =
              (case find (existsSync fs_example)
                      (map (\<lambda>ext. path_resolve fs_example (target_of fs_example None) (''playwright.config'' @ ext))
                         [''.ts'', ''.js'', ''.mts'', ''.mjs'', ''.cts'', ''.cjs'']) of
                 Some f \<Rightarrow> Inr \<lparr>resolvedConfigFile = Some f, configDir = path_dirname fs_example f\<rparr>
               | None \<Rightarrow> Inr \<lparr>resolvedConfigFile = None, configDir = target_of fs_example None\<rparr>)"
    using resolveConfigLocation_cases [OF h1 h2, of None] b by blast
  moreover have "resolveConfigLocation fs_example (Some ''custom.json'')
              = Inr \<lparr>resolvedConfigFile = Some (target_of fs_example (Some ''custom.json'')),
                     configDir = path_dirname fs_example (target_of fs_example (Some ''custom.json''))\<rparr>"
    using resolveConfigLocation_cases [OF h1 h2, of "Some ''custom.json''"] c by blast
  ultimately show ?thesis
    by (simp add: fs_example_def target_of_def)
qed

section \<open>The sentinel of the merge entry point\<close>

text \<open>
  Claim C9. Called with one object fragment, \<^verbatim>\<open>defineConfig\<close> returns that fragment
  with the same own properties and with the sentinel set; and whenever
  \<^verbatim>\<open>loadConfig\<close> returns a configuration, its \<^verbatim>\<open>defineConfigWasUsed\<close> flag is
  true exactly when the loaded user config carries the sentinel.
\<close>

theorem single_fragment_marked:
  "defineConfig [JObj ps m] = Inr (JObj ps True)
   \<and> own_props (JObj ps True) = own_props (JObj ps m)
   \<and> has_mark (JObj ps True)
   \<and> (loadConfig env lenv location = Inr fc \<longrightarrow>
        (\<exists>userConfig. loadUserConfig lenv location = Inr userConfig
            \<and> defineConfigWasUsed fc = has_mark userConfig))"
  by (auto simp: defineConfig_def loadConfig_def split: if_splits sum.splits)

theorem single_fragment_marked_witness:
  "loadConfig accept_all loader_example
      \<lparr>resolvedConfigFile = Some ''/w/playwright.config.ts'', configDir = ''/w''\<rparr>
     = Inr \<lparr>internal = JObj [(''retries'', JNum 1)] True, defineConfigWasUsed = True\<rparr>
   \<and> loadUserConfig loader_example
      \<lparr>resolvedConfigFile = Some ''/w/playwright.config.ts'', configDir = ''/w''\<rparr>
     = Inr (JObj [(''retries'', JNum 1)] True)
   \<and> defineConfigWasUsed \<lparr>internal = JObj [(''retries'', JNum 1)] True, defineConfigWasUsed = True\<rparr>
     = has_mark (JObj [(''retries'', JNum 1)] True)"
proof -
  let ?loc = "\<lparr>resolvedConfigFile = Some ''/w/playwright.config.ts'', configDir = ''/w''\<rparr>"
  let ?fc = "\<lparr>internal = JObj [(''retries'', JNum 1)] True, defineConfigWasUsed = True\<rparr>"
  have d: "defineConfig [JObj [(''retries'', JNum 1)] False] = Inr (JObj [(''retries'', JNum 1)] True)"
    using single_fragment_marked [of "[(''retries'', JNum 1)]" False] by blast
  have u: "loadUserConfig loader_example ?loc = Inr (JObj [(''retries'', JNum 1)] True)"
    by (simp add: loadUserConfig_def loader_example_def d has_key_def lookup_def)
  have v: "validateConfig accept_all ''/w/playwright.config.ts'' (JObj [(''retries'', JNum 1)] True) = Inr ()"
    by (simp add: validateConfig_def accept_all_def schemaCheck_def validateProject_def
        checkPatternProp_def projectsCheck_def tsconfigCheck_def has_key_def lookup_def)
  have l: "loadConfig accept_all loader_example ?loc = Inr ?fc"
    by (simp add: loadConfig_def u v) (simp add: loader_example_def)
  obtain uc where uc: "loadUserConfig loader_example ?loc = Inr uc"
    and flag: "defineConfigWasUsed ?fc = has_mark uc"
    using single_fragment_marked [where env = accept_all and lenv = loader_example
        and location = ?loc and fc = ?fc] l by blast
  have "uc = JObj [(''retries'', JNum 1)] True" using u uc by simp
  then show ?thesis using l u flag by simp
qed

section \<open>The order of validation\<close>

lemma getv_defined_key_in:
  assumes "getv v k \<noteq> JUndefined" and "typeof_object v"
  shows "key_in k v"
proof (cases v)
  case (JObj ps m)
  then show ?thesis using assms lookup_absent [of ps k] by auto
next
  case (JArr xs)
  then show ?thesis using assms by (auto split: if_splits option.splits)
qed (use assms in auto)

lemma validateProject_use_ok:
  assumes "validateProject parse file v title = Inr ()"
    and "getv v ''use'' \<noteq> JUndefined"
  shows "validateTestOptions parse file (getv v ''use'') (title @ ''.use'') = Inr ()"
proof -
  have o: "typeof_object v" using assms(1) by (auto simp: validateProject_def split: if_splits)
  have "key_in ''use'' v" using getv_defined_key_in [OF assms(2) o] .
  then show ?thesis
    using assms by (auto simp: validateProject_def split: if_splits sum.splits)
qed

lemma validateProjects_first:
  assumes "i < length ps"
    and "\<forall>j<i. validateProject parse file (ps ! j) (''config.projects['' @ dec (k + j) @ '']'') = Inr ()"
    and "validateProject parse file (ps ! i) (''config.projects['' @ dec (k + i) @ '']'') = Inl e"
  shows "validateProjects parse file ps k = Inl e"
  using assms
proof (induction ps arbitrary: i k)
  case Nil
  then show ?case by simp
next
  case (Cons p ps)
  show ?case
  proof (cases i)
    case 0
    then show ?thesis using Cons.prems(3) by simp
  next
    case (Suc i')
    have p0: "validateProject parse file p (''config.projects['' @ dec k @ '']'') = Inr ()"
      using Cons.prems(2) Suc by force
    have "validateProjects parse file ps (Suc k) = Inl e"
    proof (rule Cons.IH [of i'])
      show "i' < length ps" using Cons.prems(1) Suc by simp
      show "\<forall>j<i'. validateProject parse file (ps ! j) (''config.projects['' @ dec (Suc k + j) @ '']'') = Inr ()"
      proof (intro allI impI)
        fix j assume "j < i'"
        then have "Suc j < i" using Suc by simp
        then show "validateProject parse file (ps ! j) (''config.projects['' @ dec (Suc k + j) @ '']'') = Inr ()"
          using Cons.prems(2) by fastforce
      qed
      show "validateProject parse file (ps ! i') (''config.projects['' @ dec (Suc k + i') @ '']'') = Inl e"
        using Cons.prems(3) Suc by simp
    qed
    then show ?thesis using p0 by simp
  qed
qed

text \<open>
  Claim C2. For a candidate that is an object, validation reports the first violation in
  the order: the top-level schema, of whose issues only the first is reported; then the
  config taken as a project, which ends with the options in \<^verbatim>\<open>config.use\<close>; then
  the entries of \<^verbatim>\<open>config.projects\<close> by index. A violation at an earlier stage is
  the error whatever the later stages would find, and among the projects the one with
  the least index that fails gives the error.
\<close>

theorem first_violation_reported:
  assumes "typeof_object config" and "truthy config"
  shows "(testConfigSchema_parse env config = ZodError (iss # rest) \<longrightarrow>
            validateConfig env file config = Inl (reportConfigIssue file config iss))
     \<and> (testConfigSchema_parse env config = ParseOk
          \<and> validateProject (testOptionsSchema_parse env) file config ''config'' = Inl e \<longrightarrow>
            validateConfig env file config = Inl e)
     \<and> (testConfigSchema_parse env config = ParseOk
          \<and> checkPatternProp file config ''config'' ''testIgnore'' = Inr ()
          \<and> checkPatternProp file config ''config'' ''testMatch'' = Inr ()
          \<and> getv config ''use'' = JObj u um
          \<and> testOptionsSchema_parse env (JObj u um) = ZodError (uiss # urest) \<longrightarrow>
            validateConfig env file config
              = Inl (reportOptionsIssue file (JObj u um) ''config.use'' uiss))
     \<and> (testConfigSchema_parse env config = ParseOk
          \<and> validateProject (testOptionsSchema_parse env) file config ''config'' = Inr ()
          \<and> getv config ''projects'' = JArr ps \<and> i < length ps
          \<and> (\<forall>j<i. validateProject (testOptionsSchema_parse env) file (ps ! j)
                       (''config.projects['' @ dec j @ '']'') = Inr ())
          \<and> validateProject (testOptionsSchema_parse env) file (ps ! i)
                       (''config.projects['' @ dec i @ '']'') = Inl e' \<longrightarrow>
            validateConfig env file config = Inl e')"
proof (intro conjI impI)
  assume "testConfigSchema_parse env config = ZodError (iss # rest)"
  then show "validateConfig env file config = Inl (reportConfigIssue file config iss)"
    using assms by (simp add: validateConfig_def schemaCheck_def)
next
  assume "testConfigSchema_parse env config = ParseOk
          \<and> validateProject (testOptionsSchema_parse env) file config ''config'' = Inl e"
  then show "validateConfig env file config = Inl e"
    using assms by (simp add: validateConfig_def schemaCheck_def)
next
  assume a: "testConfigSchema_parse env config = ParseOk
          \<and> checkPatternProp file config ''config'' ''testIgnore'' = Inr ()
          \<and> checkPatternProp file config ''config'' ''testMatch'' = Inr ()
          \<and> getv config ''use'' = JObj u um
          \<and> testOptionsSchema_parse env (JObj u um) = ZodError (uiss # urest)"
  then have "getv config ''use'' \<noteq> JUndefined" by simp
  then have k: "key_in ''use'' config" using assms(1) by (rule getv_defined_key_in)
  have "validateProject (testOptionsSchema_parse env) file config ''config''
          = Inl (reportOptionsIssue file (JObj u um) ''config.use'' uiss)"
    using a k assms by (simp add: validateProject_def validateTestOptions_def)
  then show "validateConfig env file config
              = Inl (reportOptionsIssue file (JObj u um) ''config.use'' uiss)"
    using a assms by (simp add: validateConfig_def schemaCheck_def)
next
  assume a: "testConfigSchema_parse env config = ParseOk
          \<and> validateProject (testOptionsSchema_parse env) file config ''config'' = Inr ()
          \<and> getv config ''projects'' = JArr ps \<and> i < length ps
          \<and> (\<forall>j<i. validateProject (testOptionsSchema_parse env) file (ps ! j)
                       (''config.projects['' @ dec j @ '']'') = Inr ())
          \<and> validateProject (testOptionsSchema_parse env) file (ps ! i)
                       (''config.projects['' @ dec i @ '']'') = Inl e'"
  have u: "getv config ''use'' \<noteq> JUndefined \<Longrightarrow>
      validateTestOptions (testOptionsSchema_parse env) file (getv config ''use'') ''config.use'' = Inr ()"
    using validateProject_use_ok [where v = config and title = "''config''"] a by simp
  have "validateProjects (testOptionsSchema_parse env) file ps 0 = Inl e'"
    using validateProjects_first [where k = 0 and i = i and ps = ps] a by simp
  then have "projectsCheck env file config = Inl e'"
    using a by (simp add: projectsCheck_def)
  then show "validateConfig env file config = Inl e'"
    using a u assms by (simp add: validateConfig_def schemaCheck_def)
qed

lemmas eval_validate =
  validateProject_def checkPatternProp_def validateTestOptions_def has_key_def lookup_def
  strict_example_def isRegExp_def

theorem first_violation_reported_witness:
  "validateConfig strict_example ''playwright.config.ts''
      (JObj [(''fullyParallel'', JStr ''yes''), (''globalTimeout'', JNum (- 1)),
             (''use'', JObj [(''headless'', JStr ''yes'')] False)] False)
     = Inl (ErrorWithFile ''playwright.config.ts''
             [Text (option_message ''fullyParallel'' ''expected boolean, received string''
                    @ newline @ ''Received: ''), Json (JStr ''yes'')])
   \<and> validateConfig strict_example ''playwright.config.ts''
      (JObj [(''testMatch'', JNum 5), (''use'', JObj [(''headless'', JStr ''yes'')] False)] False)
     = Inl (ErrorWithFile ''playwright.config.ts'' [Text ''config.testMatch must be a string or a RegExp''])
   \<and> validateConfig strict_example ''playwright.config.ts''
      (JObj [(''use'', JObj [(''headless'', JStr ''yes'')] False),
             (''projects'', JArr [JObj [(''use'', JObj [(''headless'', JStr ''yes'')] False)] False])] False)
     = Inl (reportOptionsIssue ''playwright.config.ts'' (JObj [(''headless'', JStr ''yes'')] False)
             ''config.use'' headless_issue)
   \<and> validateConfig strict_example ''playwright.config.ts''
      (JObj [(''projects'', JArr [JObj [] False,
                                  JObj [(''use'', JObj [(''headless'', JStr ''yes'')] False)] False,
                                  JObj [(''use'', JNum 5)] False])] False)
     = Inl (reportOptionsIssue ''playwright.config.ts'' (JObj [(''headless'', JStr ''yes'')] False)
             ''config.projects[1].use'' headless_issue)"
proof -
  let ?f = "''playwright.config.ts''"
  let ?u = "JObj [(''headless'', JStr ''yes'')] False"
  let ?c1 = "JObj [(''fullyParallel'', JStr ''yes''), (''globalTimeout'', JNum (- 1)), (''use'', ?u)] False"
  let ?c2 = "JObj [(''testMatch'', JNum 5), (''use'', ?u)] False"
  let ?c3 = "JObj [(''use'', ?u), (''projects'', JArr [JObj [(''use'', ?u)] False])] False"
  let ?ps = "[JObj [] False, JObj [(''use'', ?u)] False, JObj [(''use'', JNum 5)] False]"
  let ?c4 = "JObj [(''projects'', JArr ?ps)] False"
  let ?opt = "testOptionsSchema_parse strict_example"
  have a: "testConfigSchema_parse strict_example ?c1 = ZodError (fullyParallel_issue # [globalTimeout_issue])"
    by (simp add: strict_example_def lookup_def)
  have r1: "validateConfig strict_example ?f ?c1 = Inl (reportConfigIssue ?f ?c1 fullyParallel_issue)"
    using first_violation_reported [of ?c1 strict_example fullyParallel_issue "[globalTimeout_issue]"] a
    by simp
  have e1: "reportConfigIssue ?f ?c1 fullyParallel_issue
     = ErrorWithFile ?f
             [Text (option_message ''fullyParallel'' ''expected boolean, received string''
                    @ newline @ ''Received: ''), Json (JStr ''yes'')]"
    by (simp add: reportConfigIssue_def fullyParallel_issue_def received_error_def lookup_def)
  have b: "testConfigSchema_parse strict_example ?c2 = ParseOk
      \<and> validateProject ?opt ?f ?c2 ''config''
          = Inl (ErrorWithFile ?f [Text ''config.testMatch must be a string or a RegExp''])"
    by (simp add: eval_validate)
  have r2: "validateConfig strict_example ?f ?c2
      = Inl (ErrorWithFile ?f [Text ''config.testMatch must be a string or a RegExp''])"
    using first_violation_reported [where config = ?c2 and env = strict_example
        and e = "ErrorWithFile ?f [Text ''config.testMatch must be a string or a RegExp'']"] b
    by simp
  have c: "testConfigSchema_parse strict_example ?c3 = ParseOk
          \<and> checkPatternProp ?f ?c3 ''config'' ''testIgnore'' = Inr ()
          \<and> checkPatternProp ?f ?c3 ''config'' ''testMatch'' = Inr ()
          \<and> getv ?c3 ''use'' = ?u
          \<and> ?opt ?u = ZodError (headless_issue # [])"
    by (simp add: eval_validate)
  have r3: "validateConfig strict_example ?f ?c3 = Inl (reportOptionsIssue ?f ?u ''config.use'' headless_issue)"
    using first_violation_reported [where config = ?c3 and env = strict_example
        and u = "[(''headless'', JStr ''yes'')]" and um = False and uiss = headless_issue and urest = "[]"] c
    by simp
  have d1: "dec 0 = ''0''" "dec 1 = ''1''" "dec (Suc 0) = ''1''" by (simp_all add: dec.simps digit_def)
  have d: "testConfigSchema_parse strict_example ?c4 = ParseOk
          \<and> validateProject ?opt ?f ?c4 ''config'' = Inr ()
          \<and> getv ?c4 ''projects'' = JArr ?ps \<and> 1 < length ?ps
          \<and> (\<forall>j<1. validateProject ?opt ?f (?ps ! j) (''config.projects['' @ dec j @ '']'') = Inr ())
          \<and> validateProject ?opt ?f (?ps ! 1) (''config.projects['' @ dec 1 @ '']'')
               = Inl (reportOptionsIssue ?f ?u ''config.projects[1].use'' headless_issue)"
    by (simp add: eval_validate d1)
  have r4: "validateConfig strict_example ?f ?c4
      = Inl (reportOptionsIssue ?f ?u ''config.projects[1].use'' headless_issue)"
    using first_violation_reported [where config = ?c4 and env = strict_example and ps = ?ps and i = 1
        and e' = "reportOptionsIssue ?f ?u ''config.projects[1].use'' headless_issue"] d
    by simp
  show ?thesis using r1 e1 r2 r3 r4 by simp
qed

text \<open>
  Claim C3 does not hold of the code. For an out-of-range or wrong-value issue the
  received value is read as \<^verbatim>\<open>use[path]\<close> (or \<^verbatim>\<open>config[path]\<close>) with the path
  joined by dots, so for a nested path it is \<^verbatim>\<open>undefined\<close> and not the value found
  by walking the path, which is what the wrong-type branch reports. Here the width of
  the viewport is \<open>- 100\<close> and the diagnostic says \<^verbatim>\<open>Received: undefined\<close>; the same
  holds of the top-level validator for \<^verbatim>\<open>expect.timeout\<close>; the wrong-type branch
  reports the nested value.
\<close>

theorem nested_bound_received_value:
  "reportOptionsIssue ''playwright.config.ts''
      (JObj [(''viewport'', JObj [(''width'', JNum (- 100)), (''height'', JNum 720)] False)] False)
      ''config.use''
      \<lparr>code = too_small, path = [PKey ''viewport'', PKey ''width''],
       message = ''Too small: expected number to be >0''\<rparr>
     = ErrorWithFile ''playwright.config.ts''
         [Text (option_message ''config.use.viewport.width'' ''Too small: expected number to be >0''
                @ newline @ ''Received: ''), Json JUndefined]
   \<and> walk (JObj [(''viewport'', JObj [(''width'', JNum (- 100)), (''height'', JNum 720)] False)] False)
        [PKey ''viewport'', PKey ''width''] = Inr (JNum (- 100))
   \<and> reportConfigIssue ''playwright.config.ts''
      (JObj [(''expect'', JObj [(''timeout'', JNum (- 1000))] False)] False)
      \<lparr>code = too_small, path = [PKey ''expect'', PKey ''timeout''],
       message = ''Too small: expected number to be >=0''\<rparr>
     = ErrorWithFile ''playwright.config.ts''
         [Text (option_message ''expect.timeout'' ''Too small: expected number to be >=0''
                @ newline @ ''Received: ''), Json JUndefined]
   \<and> reportOptionsIssue ''playwright.config.ts''
      (JObj [(''viewport'', JObj [(''width'', JStr ''wide''), (''height'', JNum 720)] False)] False)
      ''config.use''
      \<lparr>code = invalid_type, path = [PKey ''viewport'', PKey ''width''],
       message = ''Invalid input: expected number, received string''\<rparr>
     = ErrorWithFile ''playwright.config.ts''
         [Text (option_message ''config.use.viewport.width'' ''expected number, received string''
                @ newline @ ''Received: ''), Json (JStr ''wide'')]"
  by (simp add: reportOptionsIssue_def reportConfigIssue_def received_error_def get_prop_def
      lookup_def)

section \<open>Unknown keys\<close>

lemma zparse_object_unknown_key:
  assumes "mode \<noteq> Strict" and "k \<notin> set (map fst shape)"
  shows "zparse msg (ZObject shape mode) (JObj (set_prop k v ps) m)
           = zparse msg (ZObject shape mode) (JObj ps m)"
proof -
  have "map (\<lambda>(k', s). under (PKey k') (zparse msg s (lookup (set_prop k v ps) k'))) shape
      = map (\<lambda>(k', s). under (PKey k') (zparse msg s (lookup ps k'))) shape"
  proof (rule map_cong [OF refl])
    fix x assume x: "x \<in> set shape"
    obtain k' s where ks: "x = (k', s)" by (cases x)
    have "k' \<noteq> k" using assms(2) x ks by force
    then show "(case x of (k', s) \<Rightarrow> under (PKey k') (zparse msg s (lookup (set_prop k v ps) k')))
             = (case x of (k', s) \<Rightarrow> under (PKey k') (zparse msg s (lookup ps k')))"
      by (simp add: ks)
  qed
  then show ?thesis using assms(1) by (simp only: zparse.simps object_props.simps option.case if_False simp_thms)
qed

lemma schema_parse_ok: "(schema_parse msg s v = ParseOk) = (zparse msg s v = [])"
  by (cases "zparse msg s v") (simp_all add: schema_parse_def)

lemma validateTestOptions_ok: "(validateTestOptions parse file use title = Inr ()) = (parse use = ParseOk)"
  by (auto simp: validateTestOptions_def split: parse_result.splits list.splits)

lemma schemaCheck_ok: "(schemaCheck env file config = Inr ()) = (testConfigSchema_parse env config = ParseOk)"
  by (auto simp: schemaCheck_def split: parse_result.splits list.splits)

lemma validateConfig_ok:
  "(validateConfig env file config = Inr ()) =
     (typeof_object config \<and> truthy config
      \<and> schemaCheck env file config = Inr ()
      \<and> validateProject (testOptionsSchema_parse env) file config ''config'' = Inr ()
      \<and> (getv config ''use'' \<noteq> JUndefined \<longrightarrow>
            validateTestOptions (testOptionsSchema_parse env) file (getv config ''use'') ''config.use'' = Inr ())
      \<and> projectsCheck env file config = Inr ()
      \<and> tsconfigCheck env file config = Inr ())"
  by (auto simp: validateConfig_def split: sum.splits if_splits)

lemma checkPatternProp_other:
  assumes "p \<noteq> k"
  shows "checkPatternProp file (JObj (set_prop k v ps) m) title p = checkPatternProp file (JObj ps m) title p"
  using assms by (simp add: checkPatternProp_def)

lemma validateProject_other:
  assumes "k \<notin> set hand_checked_keys"
  shows "validateProject parse file (JObj (set_prop k v ps) m) title
           = validateProject parse file (JObj ps m) title"
proof -
  have ne: "''testIgnore'' \<noteq> k" "''testMatch'' \<noteq> k" "''use'' \<noteq> k"
    using assms by (auto simp: hand_checked_keys_def)
  have 1: "checkPatternProp file (JObj (set_prop k v ps) m) title ''testIgnore''
      = checkPatternProp file (JObj ps m) title ''testIgnore''"
    using ne(1) by (rule checkPatternProp_other)
  have 2: "checkPatternProp file (JObj (set_prop k v ps) m) title ''testMatch''
      = checkPatternProp file (JObj ps m) title ''testMatch''"
    using ne(2) by (rule checkPatternProp_other)
  have 3: "key_in ''use'' (JObj (set_prop k v ps) m) = key_in ''use'' (JObj ps m)"
    using ne(3) by simp
  have 4: "getv (JObj (set_prop k v ps) m) ''use'' = getv (JObj ps m) ''use''"
    using ne(3) by simp
  show ?thesis
    by (simp only: validateProject_def 1 2 3 4 typeof_object.simps truthy.simps)
qed

lemma projectsCheck_other:
  assumes "k \<notin> set hand_checked_keys"
  shows "projectsCheck env file (JObj (set_prop k v ps) m) = projectsCheck env file (JObj ps m)"
proof -
  have "''projects'' \<noteq> k" using assms by (auto simp: hand_checked_keys_def)
  then show ?thesis by (simp add: projectsCheck_def)
qed

lemma tsconfigCheck_other:
  assumes "k \<notin> set hand_checked_keys"
  shows "tsconfigCheck env file (JObj (set_prop k v ps) m) = tsconfigCheck env file (JObj ps m)"
proof -
  have "''tsconfig'' \<noteq> k" using assms by (auto simp: hand_checked_keys_def)
  then show ?thesis by (simp add: tsconfigCheck_def)
qed

text \<open>
  Claim C8. A key that the schema of the test options does not declare does not change
  whether a \<^verbatim>\<open>use\<close> object validates, and the object handed on holds the key with its
  value: validation builds no new object. The same holds at the top level for a key that
  the open top-level schema does not declare and that the validator does not read itself
  (\<^verbatim>\<open>testIgnore\<close>, \<^verbatim>\<open>testMatch\<close>, \<^verbatim>\<open>use\<close>, \<^verbatim>\<open>projects\<close>, \<^verbatim>\<open>tsconfig\<close>).
  The top-level schema is not among the sources: it is any open object schema here.
\<close>

theorem unknown_keys_tolerated:
  "(k \<notin> set (map fst testOptionsShape) \<longrightarrow>
      (validateTestOptions (schema_parse msg testOptionsSchema) file (JObj (set_prop k v ps) m) title = Inr ())
        = (validateTestOptions (schema_parse msg testOptionsSchema) file (JObj ps m) title = Inr ())
      \<and> getv (JObj (set_prop k v ps) m) k = v)
   \<and> (testConfigSchema_parse env = schema_parse msg (ZObject shape Loose)
        \<and> k \<notin> set (map fst shape) \<and> k \<notin> set hand_checked_keys \<longrightarrow>
      (validateConfig env file (JObj (set_prop k v ps) m) = Inr ())
        = (validateConfig env file (JObj ps m) = Inr ())
      \<and> getv (JObj (set_prop k v ps) m) k = v)"
proof (intro conjI impI)
  assume k: "k \<notin> set (map fst testOptionsShape)"
  have "zparse msg testOptionsSchema (JObj (set_prop k v ps) m) = zparse msg testOptionsSchema (JObj ps m)"
    unfolding testOptionsSchema_def using k by (intro zparse_object_unknown_key) simp_all
  then show "(validateTestOptions (schema_parse msg testOptionsSchema) file (JObj (set_prop k v ps) m) title = Inr ())
        = (validateTestOptions (schema_parse msg testOptionsSchema) file (JObj ps m) title = Inr ())"
    by (simp add: validateTestOptions_ok schema_parse_ok)
next
  show "getv (JObj (set_prop k v ps) m) k = v" by simp
next
  assume a: "testConfigSchema_parse env = schema_parse msg (ZObject shape Loose)
        \<and> k \<notin> set (map fst shape) \<and> k \<notin> set hand_checked_keys"
  then have hk: "k \<notin> set hand_checked_keys" and sk: "k \<notin> set (map fst shape)" by simp_all
  have z: "zparse msg (ZObject shape Loose) (JObj (set_prop k v ps) m) = zparse msg (ZObject shape Loose) (JObj ps m)"
    using sk by (intro zparse_object_unknown_key) simp_all
  have s: "(schemaCheck env file (JObj (set_prop k v ps) m) = Inr ())
         = (schemaCheck env file (JObj ps m) = Inr ())"
    using a z by (simp add: schemaCheck_ok schema_parse_ok)
  have u: "getv (JObj (set_prop k v ps) m) ''use'' = getv (JObj ps m) ''use''"
    using hk by (auto simp: hand_checked_keys_def)
  show "(validateConfig env file (JObj (set_prop k v ps) m) = Inr ())
        = (validateConfig env file (JObj ps m) = Inr ())"
    unfolding validateConfig_ok
    by (simp only: s u validateProject_other [OF hk] projectsCheck_other [OF hk]
        tsconfigCheck_other [OF hk] typeof_object.simps truthy.simps)
next
  show "getv (JObj (set_prop k v ps) m) k = v" by simp
qed

theorem unknown_keys_tolerated_witness:
  "validateTestOptions (schema_parse plain_messages testOptionsSchema) ''playwright.config.ts''
      (JObj [(''headless'', JBool True), (''myCustomFixture'', JStr ''value'')] False) ''config.use'' = Inr ()
   \<and> getv (JObj [(''headless'', JBool True), (''myCustomFixture'', JStr ''value'')] False) ''myCustomFixture''
       = JStr ''value''
   \<and> validateConfig loose_example ''playwright.config.ts''
      (JObj [(''fullyParallel'', JBool True), (''customProperty'', JStr ''value'')] False) = Inr ()
   \<and> getv (JObj [(''fullyParallel'', JBool True), (''customProperty'', JStr ''value'')] False) ''customProperty''
       = JStr ''value''"
proof -
  let ?f = "''playwright.config.ts''"
  have sp1: "set_prop ''myCustomFixture'' (JStr ''value'') [(''headless'', JBool True)]
      = [(''headless'', JBool True), (''myCustomFixture'', JStr ''value'')]"
    by (simp add: set_prop_def has_key_def)
  have sp2: "set_prop ''customProperty'' (JStr ''value'') [(''fullyParallel'', JBool True)]
      = [(''fullyParallel'', JBool True), (''customProperty'', JStr ''value'')]"
    by (simp add: set_prop_def has_key_def)
  have k1: "''myCustomFixture'' \<notin> set (map fst testOptionsShape)"
    by (simp add: testOptionsShape_def)
  have base1: "validateTestOptions (schema_parse plain_messages testOptionsSchema) ?f
      (JObj [(''headless'', JBool True)] False) ''config.use'' = Inr ()"
    by (simp add: validateTestOptions_def schema_parse_def testOptionsSchema_def testOptionsShape_def
        lookup_def under_def)
  have k2: "testConfigSchema_parse loose_example = schema_parse plain_messages (ZObject example_config_shape Loose)
        \<and> ''customProperty'' \<notin> set (map fst example_config_shape)
        \<and> ''customProperty'' \<notin> set hand_checked_keys"
    by (simp add: loose_example_def example_config_shape_def hand_checked_keys_def)
  have base2: "validateConfig loose_example ?f (JObj [(''fullyParallel'', JBool True)] False) = Inr ()"
    by (simp add: validateConfig_def schemaCheck_def loose_example_def schema_parse_def
        example_config_shape_def validateProject_def checkPatternProp_def projectsCheck_def
        tsconfigCheck_def has_key_def lookup_def under_def)
  note inst1 = unknown_keys_tolerated [where k = "''myCustomFixture''" and v = "JStr ''value''"
      and ps = "[(''headless'', JBool True)]" and m = False and msg = plain_messages
      and title = "''config.use''"]
  note inst2 = unknown_keys_tolerated [where k = "''customProperty''" and v = "JStr ''value''"
      and ps = "[(''fullyParallel'', JBool True)]" and m = False and msg = plain_messages
      and env = loose_example and shape = example_config_shape]
  have r1: "validateTestOptions (schema_parse plain_messages testOptionsSchema) ?f
      (JObj [(''headless'', JBool True), (''myCustomFixture'', JStr ''value'')] False) ''config.use'' = Inr ()
     \<and> getv (JObj [(''headless'', JBool True), (''myCustomFixture'', JStr ''value'')] False) ''myCustomFixture''
       = JStr ''value''"
    using inst1 k1 base1 unfolding sp1 by blast
  have r2: "validateConfig loose_example ?f
      (JObj [(''fullyParallel'', JBool True), (''customProperty'', JStr ''value'')] False) = Inr ()
     \<and> getv (JObj [(''fullyParallel'', JBool True), (''customProperty'', JStr ''value'')] False) ''customProperty''
       = JStr ''value''"
    using inst2 k2 base2 unfolding sp2 by blast
  show ?thesis using r1 r2 by blast
qed

end
